theory Spec2Isabelle
  imports Complex_Main "HOL-Library.Word" "HOL-Library.AList" "HOL-Library.Sublist"
begin

unbundle bit_operations_syntax

section \<open>Data model (src/types/models.ts)\<close>

text \<open>
  JavaScript numbers that hold counters, limits and millisecond time stamps are modelled
  as \<open>int\<close>: the code only adds and subtracts one, compares them and takes a maximum,
  all far below \<open>2^53\<close>, where doubles are exact. The latency average is the one genuinely
  fractional number; it is kept as the real number its double denotes, and the operations
  on it round as double arithmetic does (\<open>roundDouble\<close> below).
  Optional fields (\<open>deadSince?\<close>, \<open>targetId?\<close>, \<open>ssl?\<close>) are options; \<open>isEnded?\<close> is a
  bool, \<open>undefined\<close> being falsy. Fields no modelled operation reads (\<open>weight\<close>,
  \<open>authProvider\<close>, \<open>headers\<close>, \<open>autoHttps\<close>, \<open>retries\<close>, the ids of route
  configurations and of requests) are left out. Each route owns its configuration object.
\<close>

datatype BalancingStrategy = ROUND_ROBIN | IP_HASH | RANDOM | LEAST_LATENCY

record Backend =
  backend_id :: string
  hostname :: string
  port :: int
  isDead :: bool
  deadSince :: "int option"
  failureCount :: int

record RouteConfig =
  vHost :: string
  strategy :: BalancingStrategy
  reqQueueLength :: int
  reqActiveLength :: int
  backends :: "Backend list"
  ssl :: "(string \<times> string) option"
  timeout :: "int option"
  proxyTimeout :: "int option"

text \<open>
  A \<open>ProxyRequest\<close> refers to the native request and response of its connection; \<open>conn\<close>
  is the handle of that pair. \<open>clientIp\<close> is typed \<open>string\<close> in the source but read with
  \<open>||\<close>, so both a missing and an empty value are representable here.
\<close>

record ProxyRequest =
  conn :: nat
  startTime :: int
  meta_vHost :: string
  clientIp :: "string option"
  targetId :: "string option"
  isEnded :: bool

section \<open>Load balancers (src/core/strategies/LoadBalancer.ts)\<close>

text \<open>
  The balancer's \<open>backends\<close> field always aliases \<open>config.backends\<close> of its route (the
  constructor and \<open>updateConfig\<close> hand over the same array), so the list is stored once,
  in the route's configuration, and passed to the selection functions. What a balancer
  owns is its variant and, for round robin, the counter.
\<close>

datatype LoadBalancer =
  RoundRobinLoadBalancer nat
| RandomLoadBalancer
| IPHashLoadBalancer

definition getAliveBackends :: "Backend list \<Rightarrow> Backend list" where
  "getAliveBackends bs = filter (\<lambda>b. \<not> isDead b) bs"

text \<open>Round robin returns the chosen backend and the new counter.\<close>

definition RoundRobin_getNextBackend :: "Backend list \<Rightarrow> nat \<Rightarrow> Backend option \<times> nat" where
  "RoundRobin_getNextBackend bs counter =
     (let alive = getAliveBackends bs in
      if length alive = 0 then (None, counter)
      else (Some (alive ! (counter mod length alive)), (counter + 1) mod length alive))"

text \<open>
  \<open>Math.random()\<close> is an input \<open>u\<close> with \<open>0 \<le> u < 1\<close>. An index outside the array reads
  \<open>undefined\<close> in JavaScript, which the caller treats like \<open>null\<close>.
\<close>

definition Random_getNextBackend :: "Backend list \<Rightarrow> real \<Rightarrow> Backend option" where
  "Random_getNextBackend bs u =
     (let alive = getAliveBackends bs in
      if length alive = 0 then None
      else (let index = \<lfloor>u * real (length alive)\<rfloor> in
            if 0 \<le> index \<and> nat index < length alive then Some (alive ! nat index) else None))"

text \<open>
  The hash loop works on JavaScript numbers. \<open>toInt32\<close> is the conversion every bitwise
  operator applies to its operands and result; \<open>x << k\<close> and \<open>x & y\<close> are written with it.
  The subtraction and addition in between are exact (the operands are below \<open>2^33\<close>).
  \<open>charCodeAt\<close> is the character code; addresses are ASCII text.
\<close>

definition toInt32 :: "int \<Rightarrow> int" where
  "toInt32 x = (x + 2 ^ 31) mod 2 ^ 32 - 2 ^ 31"

definition js_shl :: "int \<Rightarrow> nat \<Rightarrow> int" where
  "js_shl x k = toInt32 (toInt32 x * 2 ^ (k mod 32))"

definition js_and :: "int \<Rightarrow> int \<Rightarrow> int" where
  "js_and x y = toInt32 (toInt32 x AND toInt32 y)"

definition hashStep :: "int \<Rightarrow> char \<Rightarrow> int" where
  "hashStep hash c =
     (let h1 = (js_shl hash 5 - hash) + int (of_char c) in js_and h1 h1)"

definition ipHash :: "string \<Rightarrow> int" where
  "ipHash ip = foldl hashStep 0 ip"

definition clientIpOrDefault :: "ProxyRequest \<Rightarrow> string" where
  "clientIpOrDefault req =
     (case clientIp req of None \<Rightarrow> ''0.0.0.0''
      | Some ip \<Rightarrow> if ip = [] then ''0.0.0.0'' else ip)"

definition IPHash_getNextBackend :: "Backend list \<Rightarrow> ProxyRequest option \<Rightarrow> Backend option" where
  "IPHash_getNextBackend bs req =
     (let alive = getAliveBackends bs in
      if length alive = 0 then None
      else (case req of
              None \<Rightarrow> Some (alive ! 0)
            | Some r \<Rightarrow>
                (let hash = ipHash (clientIpOrDefault r);
                     index = nat \<bar>hash\<bar> mod length alive
                 in Some (alive ! index))))"

text \<open>Dynamic dispatch on the balancer's class; \<open>u\<close> is the random draw, used by RANDOM only.\<close>

fun getNextBackend ::
  "LoadBalancer \<Rightarrow> Backend list \<Rightarrow> real \<Rightarrow> ProxyRequest option \<Rightarrow> Backend option \<times> LoadBalancer" where
  "getNextBackend (RoundRobinLoadBalancer counter) bs u req =
     (case RoundRobin_getNextBackend bs counter of
        (b, counter') \<Rightarrow> (b, RoundRobinLoadBalancer counter'))"
| "getNextBackend RandomLoadBalancer bs u req = (Random_getNextBackend bs u, RandomLoadBalancer)"
| "getNextBackend IPHashLoadBalancer bs u req = (IPHash_getNextBackend bs req, IPHashLoadBalancer)"

text \<open>A window of consecutive round-robin picks over an unchanged backend list.\<close>

fun RoundRobin_picks :: "nat \<Rightarrow> Backend list \<Rightarrow> nat \<Rightarrow> Backend option list" where
  "RoundRobin_picks 0 bs counter = []"
| "RoundRobin_picks (Suc m) bs counter =
     (case RoundRobin_getNextBackend bs counter of
        (b, counter') \<Rightarrow> b # RoundRobin_picks m bs counter')"

text \<open>
  The hash as the specification words it: a fold over the characters in 32-bit
  arithmetic, \<open>h \<leftarrow> ((h << 5) - h) + c\<close>, read as a signed number at the end.
\<close>

definition hash32 :: "string \<Rightarrow> 32 word" where
  "hash32 ip = foldl (\<lambda>h c. (push_bit 5 h - h) + of_nat (of_char c)) 0 ip"

section \<open>Route (src/core/Route.ts)\<close>

text \<open>
  The queue holds handles of \<open>ProxyRequest\<close> objects. \<open>healthCheckInterval\<close> is the handle
  of the interval timer, \<open>None\<close> for \<open>null\<close>.
\<close>

record Route =
  config :: RouteConfig
  lb :: LoadBalancer
  queue :: "nat list"
  activeRequests :: int
  healthCheckInterval :: "nat option"

fun createLoadBalancer :: "BalancingStrategy \<Rightarrow> LoadBalancer" where
  "createLoadBalancer ROUND_ROBIN = RoundRobinLoadBalancer 0"
| "createLoadBalancer RANDOM = RandomLoadBalancer"
| "createLoadBalancer IP_HASH = IPHashLoadBalancer"
| "createLoadBalancer LEAST_LATENCY = RoundRobinLoadBalancer 0"

definition updateConfig :: "Route \<Rightarrow> RouteConfig \<Rightarrow> Route" where
  "updateConfig r newConfig = r\<lparr>config := newConfig\<rparr>"

definition canHandleRequest :: "Route \<Rightarrow> bool" where
  "canHandleRequest r = (activeRequests r < reqActiveLength (config r))"

definition canQueueRequest :: "Route \<Rightarrow> bool" where
  "canQueueRequest r = (int (length (queue r)) < reqQueueLength (config r))"

definition enqueue :: "Route \<Rightarrow> nat \<Rightarrow> Route" where
  "enqueue r req = r\<lparr>queue := queue r @ [req]\<rparr>"

definition dequeue :: "Route \<Rightarrow> nat option \<times> Route" where
  "dequeue r = (case queue r of [] \<Rightarrow> (None, r) | q # qs \<Rightarrow> (Some q, r\<lparr>queue := qs\<rparr>))"

definition Route_getNextBackend ::
  "Route \<Rightarrow> real \<Rightarrow> ProxyRequest option \<Rightarrow> Backend option \<times> Route" where
  "Route_getNextBackend r u req =
     (case getNextBackend (lb r) (backends (config r)) u req of
        (b, lb') \<Rightarrow> (b, r\<lparr>lb := lb'\<rparr>))"

definition getQueueLength :: "Route \<Rightarrow> nat" where
  "getQueueLength r = length (queue r)"

text \<open>
  \<open>markBackendFailure\<close> looks for the first backend with the given id and changes that
  object in place; \<open>now\<close> is the value of \<open>Date.now()\<close>.
\<close>

definition recordFailure :: "int \<Rightarrow> Backend \<Rightarrow> Backend" where
  "recordFailure now b =
     (let b1 = b\<lparr>failureCount := failureCount b + 1\<rparr> in
      if failureCount b1 \<ge> 3 then b1\<lparr>isDead := True, deadSince := Some now\<rparr> else b1)"

fun failFirst :: "string \<Rightarrow> int \<Rightarrow> Backend list \<Rightarrow> Backend list" where
  "failFirst backendId now [] = []"
| "failFirst backendId now (b # bs) =
     (if backend_id b = backendId then recordFailure now b # bs
      else b # failFirst backendId now bs)"

definition markBackendFailure :: "Route \<Rightarrow> int \<Rightarrow> string \<Rightarrow> Route" where
  "markBackendFailure r now backendId =
     r\<lparr>config := (config r)\<lparr>backends := failFirst backendId now (backends (config r))\<rparr>\<rparr>"

definition restoreBackend :: "Backend \<Rightarrow> Backend" where
  "restoreBackend b = b\<lparr>isDead := False, failureCount := 0, deadSince := None\<rparr>"

section \<open>Double arithmetic\<close>

text \<open>
  A JavaScript number is an IEEE 754 binary64 value. A finite one is read as the real
  number it denotes. \<open>*\<close> and \<open>+\<close> return the exact result rounded to the nearest double,
  ties to the even significand, and a decimal literal denotes the double nearest to it:
  \<open>roundDouble\<close> rounds to 53 significant bits in the binade of its argument, with the
  fixed quantum \<open>2^-1074\<close> below \<open>2^-1022\<close> (subnormals). Overflow to \<open>Infinity\<close> is not
  modelled: it needs magnitudes of \<open>2^1024\<close>, and the tracker only handles latencies in
  milliseconds.
\<close>

definition pow2 :: "int \<Rightarrow> real" where
  "pow2 k = (if 0 \<le> k then 2 ^ nat k else 1 / 2 ^ nat (- k))"

definition roundHalfEven :: "real \<Rightarrow> int" where
  "roundHalfEven y =
     (let f = \<lfloor>y\<rfloor>; r = y - of_int f in
      if r < 1 / 2 then f else if r > 1 / 2 then f + 1 else if even f then f else f + 1)"

definition binade :: "real \<Rightarrow> int" where
  "binade x = max \<lfloor>log 2 \<bar>x\<bar>\<rfloor> (- 1022)"

definition roundDouble :: "real \<Rightarrow> real" where
  "roundDouble x =
     (if x = 0 then 0
      else of_int (roundHalfEven (x / pow2 (binade x - 52))) * pow2 (binade x - 52))"

definition double_lit :: "real \<Rightarrow> real" where
  "double_lit x = roundDouble x"

definition double_mul :: "real \<Rightarrow> real \<Rightarrow> real" where
  "double_mul x y = roundDouble (x * y)"

definition double_add :: "real \<Rightarrow> real \<Rightarrow> real" where
  "double_add x y = roundDouble (x + y)"

section \<open>Tracker (src/core/Tracker.ts)\<close>

record RouteStats =
  requestsTotal :: int
  requestsActive :: int
  errorsTotal :: int
  avgLatencyMs :: real

type_synonym Tracker = "string \<rightharpoonup> RouteStats"

text \<open>\<open>getStats\<close> creates a zero entry on first use; every caller stores the entry back.\<close>

definition getStats :: "Tracker \<Rightarrow> string \<Rightarrow> RouteStats" where
  "getStats t v =
     (case t v of
        None \<Rightarrow> \<lparr>requestsTotal = 0, requestsActive = 0, errorsTotal = 0, avgLatencyMs = 0\<rparr>
      | Some s \<Rightarrow> s)"

definition trackRequestStart :: "Tracker \<Rightarrow> string \<Rightarrow> Tracker" where
  "trackRequestStart t v =
     (let s = getStats t v in
      t(v \<mapsto> s\<lparr>requestsTotal := requestsTotal s + 1, requestsActive := requestsActive s + 1\<rparr>))"

definition trackRequestEnd :: "Tracker \<Rightarrow> ProxyRequest \<Rightarrow> bool \<Rightarrow> int \<Rightarrow> Tracker" where
  "trackRequestEnd t req success now =
     (let s = getStats t (meta_vHost req);
          s1 = s\<lparr>requestsActive := max 0 (requestsActive s - 1)\<rparr>;
          s2 = (if \<not> success then s1\<lparr>errorsTotal := errorsTotal s1 + 1\<rparr> else s1);
          duration = now - startTime req
      in t(meta_vHost req \<mapsto>
             s2\<lparr>avgLatencyMs :=
                  double_add (double_mul (avgLatencyMs s2) (double_lit 0.9))
                             (double_mul (real_of_int duration) (double_lit 0.1))\<rparr>))"

definition trackError :: "Tracker \<Rightarrow> string \<Rightarrow> string \<Rightarrow> Tracker" where
  "trackError t v errorCode =
     (let s = getStats t v in t(v \<mapsto> s\<lparr>errorsTotal := errorsTotal s + 1\<rparr>))"

definition getRouteStats :: "Tracker \<Rightarrow> string \<Rightarrow> RouteStats option" where
  "getRouteStats t v = t v"

definition removeStats :: "Tracker \<Rightarrow> string \<Rightarrow> Tracker" where
  "removeStats t v = t(v := None)"

datatype TrackerOp =
  TrackStart string
| TrackEnd ProxyRequest bool int
| TrackErr string string
| RemoveStats string

fun applyTrackerOp :: "Tracker \<Rightarrow> TrackerOp \<Rightarrow> Tracker" where
  "applyTrackerOp t (TrackStart v) = trackRequestStart t v"
| "applyTrackerOp t (TrackEnd req success now) = trackRequestEnd t req success now"
| "applyTrackerOp t (TrackErr v code) = trackError t v code"
| "applyTrackerOp t (RemoveStats v) = removeStats t v"

section \<open>Native requests and responses\<close>

text \<open>
  What the proxy does to a Node \<open>ServerResponse\<close>: \<open>writeHead\<close> sets status and headers,
  \<open>end\<close> sends a body. A JSON body is kept as its ordered members (the escaping done by
  \<open>JSON.stringify\<close> is not modelled).
\<close>

datatype Body = Text string | Json "(string \<times> string) list"

record ServerResponse =
  statusCode :: int
  headersSent :: bool
  resHeaders :: "(string \<times> string) list"
  resBody :: "Body option"

definition writeHead :: "ServerResponse \<Rightarrow> int \<Rightarrow> (string \<times> string) list \<Rightarrow> ServerResponse" where
  "writeHead r status hs = r\<lparr>statusCode := status, headersSent := True, resHeaders := hs\<rparr>"

definition end_response :: "ServerResponse \<Rightarrow> Body \<Rightarrow> ServerResponse" where
  "end_response r b = r\<lparr>headersSent := True, resBody := Some b\<rparr>"

record WebOptions =
  target :: "string \<times> int"
  opt_timeout :: "int option"
  opt_proxyTimeout :: "int option"

text \<open>
  One connection: the native request with its \<open>proxyRequest\<close> back-reference and its
  once-listeners (each holds the handle of the \<open>ProxyRequest\<close> its closure captured), the
  response, and the call of \<open>proxy.web\<close> made for it, if any.
\<close>

record Conn =
  proxyRequest :: "nat option"
  res :: ServerResponse
  abortedListener :: "nat option"
  finishListener :: "nat option"
  proxyWeb :: "WebOptions option"

record ProxyError =
  err_code :: "string option"
  err_message :: string

fun str_includes :: "string \<Rightarrow> string \<Rightarrow> bool" where
  "str_includes [] needle = (needle = [])"
| "str_includes (x # xs) needle = (prefix needle (x # xs) \<or> str_includes xs needle)"

section \<open>Router and ProxyManager state\<close>

text \<open>
  Objects with identity live in stores indexed by handles: \<open>routeHeap\<close> holds the
  \<open>Route\<close> objects, \<open>reqs\<close> the \<open>ProxyRequest\<close> objects, \<open>conns\<close> the connections.
  \<open>routes\<close> is the router's \<open>Map\<close> from host name to a route object, in insertion order.
  \<open>timers\<close> are the interval timers running in the event loop, \<open>ticks\<close> the callbacks
  handed to \<open>process.nextTick\<close>, each a call \<open>forward(route, queuedReq)\<close>.
\<close>

record ProxyManager =
  routeHeap :: "nat \<Rightarrow> Route"
  routes :: "(string \<times> nat) list"
  timers :: "nat set"
  tracker :: Tracker
  reqs :: "nat \<Rightarrow> ProxyRequest"
  conns :: "nat \<Rightarrow> Conn"
  ticks :: "(nat \<times> nat) list"
  nextRoute :: nat
  nextTimer :: nat
  nextReq :: nat

definition setRoute :: "ProxyManager \<Rightarrow> nat \<Rightarrow> Route \<Rightarrow> ProxyManager" where
  "setRoute s a r = s\<lparr>routeHeap := (routeHeap s)(a := r)\<rparr>"

definition setConn :: "ProxyManager \<Rightarrow> nat \<Rightarrow> Conn \<Rightarrow> ProxyManager" where
  "setConn s c x = s\<lparr>conns := (conns s)(c := x)\<rparr>"

definition setReq :: "ProxyManager \<Rightarrow> nat \<Rightarrow> ProxyRequest \<Rightarrow> ProxyManager" where
  "setReq s p x = s\<lparr>reqs := (reqs s)(p := x)\<rparr>"

subsection \<open>Route timer (src/core/Route.ts)\<close>

definition startHealthCheck :: "ProxyManager \<Rightarrow> nat \<Rightarrow> ProxyManager" where
  "startHealthCheck s a =
     (case healthCheckInterval (routeHeap s a) of
        Some t \<Rightarrow> s
      | None \<Rightarrow>
          (let t = nextTimer s;
               s1 = s\<lparr>timers := insert t (timers s), nextTimer := t + 1\<rparr>
           in setRoute s1 a ((routeHeap s1 a)\<lparr>healthCheckInterval := Some t\<rparr>)))"

text \<open>The constructor \<open>new Route(config)\<close>: returns the new object's handle.\<close>

definition newRoute :: "ProxyManager \<Rightarrow> RouteConfig \<Rightarrow> nat \<times> ProxyManager" where
  "newRoute s cfg =
     (let a = nextRoute s;
          r = \<lparr>config = cfg, lb = createLoadBalancer (strategy cfg), queue = [],
               activeRequests = 0, healthCheckInterval = None\<rparr>;
          s1 = (setRoute s a r)\<lparr>nextRoute := a + 1\<rparr>
      in (a, startHealthCheck s1 a))"

definition Route_stop :: "ProxyManager \<Rightarrow> nat \<Rightarrow> ProxyManager" where
  "Route_stop s a =
     (case healthCheckInterval (routeHeap s a) of
        None \<Rightarrow> s
      | Some t \<Rightarrow>
          (let s1 = s\<lparr>timers := timers s - {t}\<rparr>
           in setRoute s1 a ((routeHeap s1 a)\<lparr>healthCheckInterval := None\<rparr>)))"

subsection \<open>Router (src/core/Router.ts)\<close>

definition getRoute :: "ProxyManager \<Rightarrow> string \<Rightarrow> nat option" where
  "getRoute s v = map_of (routes s) v"

definition addRoute :: "ProxyManager \<Rightarrow> RouteConfig \<Rightarrow> ProxyManager" where
  "addRoute s cfg =
     (case newRoute s cfg of
        (route, s1) \<Rightarrow> s1\<lparr>routes := AList.update (vHost cfg) route (routes s1)\<rparr>)"

definition removeRoute :: "ProxyManager \<Rightarrow> string \<Rightarrow> bool \<times> ProxyManager" where
  "removeRoute s v =
     (case getRoute s v of
        Some route \<Rightarrow>
          (let s1 = Route_stop s route in (True, s1\<lparr>routes := AList.delete v (routes s1)\<rparr>))
      | None \<Rightarrow> (False, s))"

definition Router_stop :: "ProxyManager \<Rightarrow> ProxyManager" where
  "Router_stop s = foldl Route_stop s (map snd (routes s))"

definition getRoutes :: "ProxyManager \<Rightarrow> Route list" where
  "getRoutes s = map (\<lambda>(v, a). routeHeap s a) (routes s)"

section \<open>ProxyManager (request path)\<close>

text \<open>
  Every handler runs to completion on the single event-loop thread. A handler that reads
  the clock gets one reading \<open>now\<close>; \<open>u\<close> is the draw of \<open>Math.random()\<close>.
\<close>

definition respond ::
  "ProxyManager \<Rightarrow> nat \<Rightarrow> int \<Rightarrow> (string \<times> string) list \<Rightarrow> Body \<Rightarrow> ProxyManager" where
  "respond s c status hs body =
     setConn s c ((conns s c)\<lparr>res := end_response (writeHead (res (conns s c)) status hs) body\<rparr>)"

definition truthy :: "int option \<Rightarrow> int option" where
  "truthy x = (case x of None \<Rightarrow> None | Some v \<Rightarrow> if v = 0 then None else Some v)"

definition forward :: "ProxyManager \<Rightarrow> real \<Rightarrow> nat \<Rightarrow> nat \<Rightarrow> ProxyManager" where
  "forward s u route proxyReq =
     (let pr = reqs s proxyReq in
      case Route_getNextBackend (routeHeap s route) u (Some pr) of
        (None, r1) \<Rightarrow>
          respond (setRoute s route r1) (conn pr) 503 []
            (Text ''Service Unavailable - No Healthy Backends'')
      | (Some backend, r1) \<Rightarrow>
          (let r2 = r1\<lparr>activeRequests := activeRequests r1 + 1\<rparr>;
               s1 = setRoute s route r2;
               s2 = setReq s1 proxyReq (pr\<lparr>targetId := Some (backend_id backend)\<rparr>);
               s3 = s2\<lparr>tracker := trackRequestStart (tracker s2) (vHost (config r2))\<rparr>;
               options = \<lparr>target = (hostname backend, port backend),
                          opt_timeout = truthy (timeout (config r2)),
                          opt_proxyTimeout = truthy (proxyTimeout (config r2))\<rparr>
           in setConn s3 (conn pr)
                ((conns s3 (conn pr))\<lparr>abortedListener := Some proxyReq,
                                      proxyWeb := Some options,
                                      finishListener := Some proxyReq\<rparr>)))"

definition dispatch :: "ProxyManager \<Rightarrow> real \<Rightarrow> nat \<Rightarrow> nat \<Rightarrow> ProxyManager" where
  "dispatch s u route proxyReq =
     (if canHandleRequest (routeHeap s route) then forward s u route proxyReq
      else if canQueueRequest (routeHeap s route) then
        setRoute s route (enqueue (routeHeap s route) proxyReq)
      else
        (let s1 = s\<lparr>tracker := trackError (tracker s) (vHost (config (routeHeap s route)))
                                  ''QUEUE_FULL''\<rparr>
         in respond s1 (conn (reqs s1 proxyReq)) 503 [(''Retry-After'', ''10'')]
              (Text ''Server Busy'')))"

text \<open>
  The loop of \<open>pumpQueue\<close> touches the route's queue and the \<open>nextTick\<close> queue only: it
  returns the route and the requests it scheduled, in order.
\<close>

function pumpLoop :: "Route \<Rightarrow> Route \<times> nat list" where
  "pumpLoop r =
     (if canHandleRequest r \<and> getQueueLength r > 0 then
        (case dequeue r of
           (None, r1) \<Rightarrow> pumpLoop r1
         | (Some queuedReq, r1) \<Rightarrow>
             (case pumpLoop r1 of (r2, scheduled) \<Rightarrow> (r2, queuedReq # scheduled)))
      else (r, []))"
  by pat_completeness auto
termination
  by (relation "measure (\<lambda>r. length (queue r))")
     (auto simp: dequeue_def getQueueLength_def split: list.splits)

declare pumpLoop.simps [simp del]

definition pumpQueue :: "ProxyManager \<Rightarrow> nat \<Rightarrow> ProxyManager" where
  "pumpQueue s route =
     (case pumpLoop (routeHeap s route) of
        (r, scheduled) \<Rightarrow>
          (setRoute s route r)\<lparr>ticks := ticks s @ map (\<lambda>q. (route, q)) scheduled\<rparr>)"

definition finalizeRequest :: "ProxyManager \<Rightarrow> int \<Rightarrow> nat \<Rightarrow> bool \<Rightarrow> ProxyManager" where
  "finalizeRequest s now proxyReq isSuccess =
     (if isEnded (reqs s proxyReq) then s
      else
        (let s1 = setReq s proxyReq ((reqs s proxyReq)\<lparr>isEnded := True\<rparr>);
             pr = reqs s1 proxyReq;
             s2 = setConn s1 (conn pr)
                    ((conns s1 (conn pr))\<lparr>abortedListener := None, finishListener := None\<rparr>)
         in case getRoute s2 (meta_vHost pr) of
              None \<Rightarrow> s2
            | Some route \<Rightarrow>
                (let r = routeHeap s2 route;
                     s3 = setRoute s2 route (r\<lparr>activeRequests := max 0 (activeRequests r - 1)\<rparr>);
                     s4 = s3\<lparr>tracker := trackRequestEnd (tracker s3) pr isSuccess now\<rparr>
                 in pumpQueue s4 route)))"

definition isTimeoutError :: "ProxyError \<Rightarrow> bool" where
  "isTimeoutError err =
     (err_code err = Some ''ECONNRESET'' \<or> err_code err = Some ''ETIMEDOUT''
      \<or> str_includes (err_message err) ''timeout'')"

text \<open>The handler of the forwarding primitive's \<open>error\<close> event, for connection \<open>c\<close>.\<close>

definition creditFailure :: "ProxyManager \<Rightarrow> int \<Rightarrow> nat \<Rightarrow> ProxyManager" where
  "creditFailure s now proxyReq =
     (case getRoute s (meta_vHost (reqs s proxyReq)) of
        None \<Rightarrow> s
      | Some route \<Rightarrow>
          (case targetId (reqs s proxyReq) of
             None \<Rightarrow> s
           | Some t \<Rightarrow>
               if t = [] then s
               else setRoute s route (markBackendFailure (routeHeap s route) now t)))"

definition onProxyError :: "ProxyManager \<Rightarrow> int \<Rightarrow> ProxyError \<Rightarrow> nat \<Rightarrow> ProxyManager" where
  "onProxyError s now err c =
     (let isTimeout = isTimeoutError err;
          s1 = (case proxyRequest (conns s c) of
                  None \<Rightarrow> s
                | Some proxyReq \<Rightarrow> finalizeRequest (creditFailure s now proxyReq) now proxyReq False)
      in if \<not> headersSent (res (conns s1 c)) then
           respond s1 c (if isTimeout then 504 else 502)
             [(''Content-Type'', ''application/json'')]
             (Json [(''error'', if isTimeout then ''Gateway Timeout'' else ''Bad Gateway''),
                    (''code'', if isTimeout then ''UPSTREAM_TIMEOUT'' else ''UPSTREAM_ERROR''),
                    (''message'', err_message err)])
         else s1)"

text \<open>
  Steps 2 and 3 of \<open>handleRequest\<close>: build the \<open>ProxyRequest\<close> (its handle is returned)
  and attach it to the native request.
\<close>

definition attachProxyRequest ::
  "ProxyManager \<Rightarrow> int \<Rightarrow> nat \<Rightarrow> string \<Rightarrow> string option \<Rightarrow> nat \<times> ProxyManager" where
  "attachProxyRequest s now c host remoteAddress =
     (let proxyReq = nextReq s;
          pr = \<lparr>conn = c, startTime = now, meta_vHost = host,
                clientIp = (if remoteAddress = None \<or> remoteAddress = Some []
                            then Some ''unknown'' else remoteAddress),
                targetId = None, isEnded = False\<rparr>;
          s1 = (setReq s proxyReq pr)\<lparr>nextReq := proxyReq + 1\<rparr>
      in (proxyReq, setConn s1 c ((conns s1 c)\<lparr>proxyRequest := Some proxyReq\<rparr>)))"

definition handleRequest ::
  "ProxyManager \<Rightarrow> int \<Rightarrow> real \<Rightarrow> nat \<Rightarrow> string option \<Rightarrow> string option \<Rightarrow> ProxyManager" where
  "handleRequest s now u c hostHeader remoteAddress =
     (case hostHeader of
        None \<Rightarrow> respond s c 400 [] (Text ''Missing Host Header'')
      | Some h \<Rightarrow>
          if h = [] then respond s c 400 [] (Text ''Missing Host Header'')
          else
            (let hostname = takeWhile (\<lambda>ch. ch \<noteq> CHR '':'') h in
             case getRoute s hostname of
               None \<Rightarrow> respond s c 404 [] (Text (''No route configured for '' @ hostname))
             | Some route \<Rightarrow>
                 (case attachProxyRequest s now c hostname remoteAddress of
                    (proxyReq, s1) \<Rightarrow> dispatch s1 u route proxyReq)))"

subsection \<open>Events of the event loop\<close>

datatype Event =
  Request int real nat "string option" "string option"
| Tick real
| Aborted int nat
| Finish int nat int
| UpstreamError int ProxyError nat

text \<open>
  \<open>Tick\<close> runs the oldest \<open>nextTick\<close> callback. \<open>Aborted\<close> and \<open>Finish\<close> fire the
  once-listeners armed by \<open>forward\<close>, if still armed; \<open>Finish c status\<close> is the end of a
  response that the forwarding primitive wrote with the upstream's status.
\<close>

fun step :: "ProxyManager \<Rightarrow> Event \<Rightarrow> ProxyManager" where
  "step s (Request now u c hostHeader remoteAddress) = handleRequest s now u c hostHeader remoteAddress"
| "step s (Tick u) =
     (case ticks s of
        [] \<Rightarrow> s
      | (route, queuedReq) # rest \<Rightarrow> forward (s\<lparr>ticks := rest\<rparr>) u route queuedReq)"
| "step s (Aborted now c) =
     (case abortedListener (conns s c) of
        None \<Rightarrow> s
      | Some proxyReq \<Rightarrow>
          finalizeRequest (setConn s c ((conns s c)\<lparr>abortedListener := None\<rparr>)) now proxyReq False)"
| "step s (Finish now c status) =
     (case finishListener (conns s c) of
        None \<Rightarrow> s
      | Some proxyReq \<Rightarrow>
          (let s1 = setConn s c ((conns s c)\<lparr>finishListener := None,
                        res := end_response (writeHead (res (conns s c)) status []) (Text [])\<rparr>)
           in finalizeRequest s1 now proxyReq (statusCode (res (conns s1 c)) < 500)))"
| "step s (UpstreamError now err c) = onProxyError s now err c"

definition run :: "ProxyManager \<Rightarrow> Event list \<Rightarrow> ProxyManager" where
  "run s evs = foldl step s evs"

text \<open>The manager as constructed: no routes, no statistics, nothing in flight.\<close>

definition freshConn :: Conn where
  "freshConn = \<lparr>proxyRequest = None,
                res = \<lparr>statusCode = 200, headersSent = False, resHeaders = [], resBody = None\<rparr>,
                abortedListener = None, finishListener = None, proxyWeb = None\<rparr>"

definition newProxyManager :: ProxyManager where
  "newProxyManager =
     \<lparr>routeHeap = (\<lambda>a. \<lparr>config = \<lparr>vHost = [], strategy = ROUND_ROBIN, reqQueueLength = 0,
                                  reqActiveLength = 0, backends = [], ssl = None,
                                  timeout = None, proxyTimeout = None\<rparr>,
                        lb = RoundRobinLoadBalancer 0, queue = [], activeRequests = 0,
                        healthCheckInterval = None\<rparr>),
      routes = [], timers = {}, tracker = Map.empty,
      reqs = (\<lambda>p. \<lparr>conn = 0, startTime = 0, meta_vHost = [], clientIp = None,
                    targetId = None, isEnded = False\<rparr>),
      conns = (\<lambda>c. freshConn), ticks = [], nextRoute = 0, nextTimer = 0, nextReq = 0\<rparr>"

section \<open>Configurations used by the repository's tests and scenarios\<close>

text \<open>\<open>mockConfig\<close> of Route.test.ts.\<close>

definition mockConfig :: RouteConfig where
  "mockConfig =
     \<lparr>vHost = ''test.com'', strategy = ROUND_ROBIN, reqQueueLength = 2, reqActiveLength = 2,
      backends =
        [\<lparr>backend_id = ''b1'', hostname = ''host1'', port = 80, isDead = False,
          deadSince = None, failureCount = 0\<rparr>,
         \<lparr>backend_id = ''b2'', hostname = ''host2'', port = 80, isDead = False,
          deadSince = None, failureCount = 0\<rparr>],
      ssl = None, timeout = None, proxyTimeout = None\<rparr>"

text \<open>\<open>mockRouteConfig\<close> of Router.test.ts.\<close>

definition mockRouteConfig :: RouteConfig where
  "mockRouteConfig =
     \<lparr>vHost = ''example.com'', strategy = ROUND_ROBIN, reqQueueLength = 10,
      reqActiveLength = 5,
      backends =
        [\<lparr>backend_id = ''b1'', hostname = ''127.0.0.1'', port = 8080, isDead = False,
          deadSince = None, failureCount = 0\<rparr>],
      ssl = Some (''mock-key'', ''mock-cert''), timeout = None, proxyTimeout = None\<rparr>"

text \<open>
  The route of the queue-then-drain scenario: one backend, one active request at most,
  two queued at most.
\<close>

definition drainConfig :: RouteConfig where
  "drainConfig =
     \<lparr>vHost = ''t1.local'', strategy = ROUND_ROBIN, reqQueueLength = 2, reqActiveLength = 1,
      backends =
        [\<lparr>backend_id = ''b1'', hostname = ''127.0.0.1'', port = 9000, isDead = False,
          deadSince = None, failureCount = 0\<rparr>],
      ssl = None, timeout = None, proxyTimeout = None\<rparr>"

text \<open>The route of Route.test.ts, and the same route after \<open>b1\<close> failed three times at time 100.\<close>

definition mockRoute :: Route where
  "mockRoute =
     \<lparr>config = mockConfig, lb = createLoadBalancer (strategy mockConfig), queue = [],
      activeRequests = 0, healthCheckInterval = None\<rparr>"

definition quarantinedRoute :: Route where
  "quarantinedRoute =
     markBackendFailure (markBackendFailure (markBackendFailure mockRoute 100 ''b1'') 100 ''b1'')
       100 ''b1''"

text \<open>
  A request that is started once and ended twice after 100 ms, as a double finalize
  would do, and a request that ends after 3 ms.
\<close>

definition mockReq :: ProxyRequest where
  "mockReq = \<lparr>conn = 0, startTime = 1000, meta_vHost = ''test.com'',
              clientIp = Some ''127.0.0.1'', targetId = None, isEnded = False\<rparr>"

definition quickReq :: ProxyRequest where
  "quickReq = \<lparr>conn = 1, startTime = 1097, meta_vHost = ''test.com'',
               clientIp = Some ''127.0.0.1'', targetId = None, isEnded = False\<rparr>"

definition endedTwice :: "TrackerOp list" where
  "endedTwice = [TrackStart ''test.com'', TrackEnd mockReq True 1100, TrackEnd mockReq False 1100]"

text \<open>A router in which the route of Router.test.ts is added twice.\<close>

definition replaced :: ProxyManager where
  "replaced = addRoute (addRoute newProxyManager mockRouteConfig) mockRouteConfig"

text \<open>
  Queue then drain: three requests arrive back to back on connections 0, 1 and 2; the
  first is forwarded, the other two are queued (\<open>saturated\<close>). A fourth request is
  attached on connection 3 (\<open>fourthArrives\<close>). In \<open>drained\<close> the first response has
  finished and the two \<open>nextTick\<close> callbacks have run.
\<close>

definition saturated :: ProxyManager where
  "saturated =
     run (addRoute newProxyManager drainConfig)
       [Request 1000 0 0 (Some ''t1.local:8080'') (Some ''10.0.0.1''),
        Request 1001 0 1 (Some ''t1.local:8080'') (Some ''10.0.0.2''),
        Request 1002 0 2 (Some ''t1.local:8080'') (Some ''10.0.0.3'')]"

definition fourthArrives :: ProxyManager where
  "fourthArrives = snd (attachProxyRequest saturated 1003 3 ''t1.local'' (Some ''10.0.0.4''))"

definition drained :: ProxyManager where
  "drained = run saturated [Finish 1500 0 200, Tick 0, Tick 0]"

text \<open>Two upstream errors: a refused connection and a reset socket.\<close>

definition refused :: ProxyError where
  "refused = \<lparr>err_code = Some ''ECONNREFUSED'',
              err_message = ''connect ECONNREFUSED 127.0.0.1:9000''\<rparr>"

definition hangUp :: ProxyError where
  "hangUp = \<lparr>err_code = Some ''ECONNRESET'', err_message = ''socket hang up''\<rparr>"

text \<open>Two requests from the same client address, and the first backend of \<open>mockConfig\<close> marked dead.\<close>

definition clientReq :: "nat \<Rightarrow> int \<Rightarrow> ProxyRequest" where
  "clientReq c t = \<lparr>conn = c, startTime = t, meta_vHost = ''test.com'',
                     clientIp = Some ''10.0.10.9'', targetId = None, isEnded = False\<rparr>"

definition deadB1 :: Backend where
  "deadB1 = (backends mockConfig ! 0)\<lparr>isDead := True\<rparr>"

section \<open>Predicates used in the statements\<close>

definition activeNonNeg :: "Tracker \<Rightarrow> bool" where
  "activeNonNeg t = (\<forall>v s. t v = Some s \<longrightarrow> 0 \<le> requestsActive s)"

definition ended :: "ProxyManager \<Rightarrow> nat \<Rightarrow> bool" where
  "ended s p = (p < nextReq s \<and> isEnded (reqs s p))"

definition activeRequestsNonNeg :: "ProxyManager \<Rightarrow> bool" where
  "activeRequestsNonNeg s = (\<forall>a. 0 \<le> activeRequests (routeHeap s a))"

section \<open>The test configuration\<close>

lemma mockConfig_alive:
  "getAliveBackends (backends mockConfig) = backends mockConfig"
  "getAliveBackends (deadB1 # backends mockConfig) = backends mockConfig"
  "getAliveBackends [deadB1] = []"
  "length (backends mockConfig) = 2"
  "backends mockConfig \<noteq> []"
  "hd (backends mockConfig) = backends mockConfig ! 0"
  by (simp_all add: mockConfig_def deadB1_def getAliveBackends_def)

section \<open>Round robin\<close>

subsection \<open>Counting residues in a window\<close>

lemma div_block: "r < (n::nat) \<Longrightarrow> (q * n + r) div n = q"
  by simp

lemma residue_hit:
  assumes "j < (n::nat)"
  shows "((N + (n - j)) mod n = 0) = (N mod n = j)"
proof -
  define r where "r = N mod n"
  have r: "r < n" using assms by (simp add: r_def)
  have red: "(N + (n - j)) mod n = (r + (n - j)) mod n"
    by (simp add: r_def mod_add_left_eq)
  consider "r = j" | "r < j" | "j < r" by linarith
  then have "((r + (n - j)) mod n = 0) = (r = j)"
  proof cases
    case 1
    then show ?thesis using assms by simp
  next
    case 2
    then have "r + (n - j) < n" "0 < r + (n - j)" using assms by simp_all
    then show ?thesis using 2 assms by simp
  next
    case 3
    then have "r + (n - j) = n + (r - j)" using assms by simp
    moreover have "(n + (r - j)) mod n = (r - j) mod n" by (rule mod_add_self1)
    moreover have "(r - j) mod n = r - j" using r by (simp add: less_imp_diff_less)
    ultimately show ?thesis using 3 by simp
  qed
  then show ?thesis by (simp add: red r_def)
qed

lemma ceil_div:
  assumes "0 < (n::nat)"
  shows "(m + n - 1) div n = (if m mod n = 0 then m div n else Suc (m div n))"
proof (cases "m mod n = 0")
  case True
  have "m div n * n = m" using True by (simp add: mod_eq_0_iff_dvd)
  then have "m + n - 1 = (m div n) * n + (n - 1)" using assms by simp
  moreover have "((m div n) * n + (n - 1)) div n = m div n"
    using assms by (intro div_block) simp
  ultimately show ?thesis using True by simp
next
  case False
  define r where "r = m mod n"
  have r: "0 < r" "r < n" using False assms by (simp_all add: r_def)
  have "m = (m div n) * n + r" by (simp add: r_def)
  then have "m + n - 1 = (m div n) * n + r + n - 1" by simp
  also have "\<dots> = Suc (m div n) * n + (r - 1)" using r by simp
  finally have "(m + n - 1) div n = (Suc (m div n) * n + (r - 1)) div n" by simp
  also have "\<dots> = Suc (m div n)" using r by (intro div_block) simp
  finally show ?thesis using False by simp
qed

lemma carry: 
  assumes "0 < (n::nat)" shows "(a mod n + m mod n) div n \<le> 1"
proof -
  have "a mod n + m mod n < 2 * n"
    using assms by (simp add: add_strict_mono mult_2)
  then have "(a mod n + m mod n) div n < 2" by (rule less_mult_imp_div_less)
  then show ?thesis by simp
qed

lemma window_floor_ceil:
  assumes "0 < (n::nat)"
  shows "(a + m) div n - a div n = m div n \<or> (a + m) div n - a div n = (m + n - 1) div n"
proof -
  have split: "(a + m) div n = a div n + m div n + (a mod n + m mod n) div n"
    by (rule div_add1_eq)
  show ?thesis
  proof (cases "m mod n = 0")
    case True
    then show ?thesis using assms by (simp add: split)
  next
    case False
    have "(a mod n + m mod n) div n = 0 \<or> (a mod n + m mod n) div n = 1"
      using carry [OF assms, of a m] by linarith
    moreover have "(m + n - 1) div n = Suc (m div n)"
      using False ceil_div [OF assms, of m] by simp
    ultimately show ?thesis by (auto simp: split)
  qed
qed

subsection \<open>The picks of a window\<close>

lemma RoundRobin_pick_alive:
  assumes "getAliveBackends bs \<noteq> []"
  shows "RoundRobin_getNextBackend bs k =
           (Some (getAliveBackends bs ! (k mod length (getAliveBackends bs))),
            (k + 1) mod length (getAliveBackends bs))"
  using assms by (simp add: RoundRobin_getNextBackend_def Let_def)

lemma RoundRobin_picks_map:
  assumes "getAliveBackends bs \<noteq> []"
  shows "RoundRobin_picks m bs k =
           map (\<lambda>i. Some (getAliveBackends bs ! ((k + i) mod length (getAliveBackends bs)))) [0..<m]"
proof (induction m arbitrary: k)
  case 0
  show ?case by simp
next
  case (Suc m)
  let ?n = "length (getAliveBackends bs)"
  let ?f = "\<lambda>k i. Some (getAliveBackends bs ! ((k + i) mod ?n))"
  have shift: "?f ((k + 1) mod ?n) i = ?f k (Suc i)" for i
    by (simp add: mod_add_left_eq mod_Suc_eq)
  have "RoundRobin_picks (Suc m) bs k = ?f k 0 # RoundRobin_picks m bs ((k + 1) mod ?n)"
    by (simp add: RoundRobin_pick_alive [OF assms])
  also have "RoundRobin_picks m bs ((k + 1) mod ?n) = map (?f ((k + 1) mod ?n)) [0..<m]"
    by (rule Suc.IH)
  also have "map (?f ((k + 1) mod ?n)) [0..<m] = map (\<lambda>i. ?f k (Suc i)) [0..<m]"
    by (simp only: shift)
  also have "?f k 0 # map (\<lambda>i. ?f k (Suc i)) [0..<m] = map (?f k) (0 # map Suc [0..<m])"
    by (simp add: comp_def)
  also have "0 # map Suc [0..<m] = [0..<Suc m]"
    by (simp only: map_Suc_upt upt_conv_Cons [of 0 "Suc m"] zero_less_Suc)
  finally show ?case .
qed

lemma residue_hits_closed:
  assumes "j < n"
  shows "length (filter (\<lambda>i. (k + i) mod n = j) [0..<m])
           = (k + m + n - 1 - j) div n - (k + n - 1 - j) div n"
proof (induction m)
  case 0
  show ?case by simp
next
  case (Suc m)
  define x where "x = k + m + n - 1 - j"
  have sx: "k + Suc m + n - 1 - j = Suc x" "Suc x = (k + m) + (n - j)"
    using assms by (simp_all add: x_def)
  have hit: "(Suc x mod n = 0) = ((k + m) mod n = j)"
    unfolding sx(2) by (rule residue_hit [OF assms])
  have mono: "(k + n - 1 - j) div n \<le> x div n"
    unfolding x_def by (rule div_le_mono) simp
  have "length (filter (\<lambda>i. (k + i) mod n = j) [0..<Suc m])
          = (x div n - (k + n - 1 - j) div n) + (if (k + m) mod n = j then 1 else 0)"
    using Suc.IH by (simp add: x_def)
  also have "\<dots> = Suc x div n - (k + n - 1 - j) div n"
    using mono by (simp add: div_Suc hit Suc_diff_le)
  finally show ?case by (simp only: sx(1))
qed

lemma count_picks:
  assumes "distinct alive" "j < length alive"
  shows "count_list (map (\<lambda>i. Some (alive ! ((k + i) mod length alive))) xs) (Some (alive ! j))
           = length (filter (\<lambda>i. (k + i) mod length alive = j) xs)"
proof (induction xs)
  case Nil
  show ?case by simp
next
  case (Cons a xs)
  have "0 < length alive" using assms(2) by (cases alive) simp_all
  then have "(k + a) mod length alive < length alive" by (rule mod_less_divisor)
  then have "(alive ! ((k + a) mod length alive) = alive ! j) = ((k + a) mod length alive = j)"
    by (rule nth_eq_iff_index_eq [OF assms(1) _ assms(2)])
  then show ?case using Cons.IH by simp
qed

text \<open>
  Claim C5. With an unchanged backend list whose alive part \<open>alive\<close> is not empty, of
  size \<open>n\<close>, a round-robin pick at counter \<open>k\<close> returns \<open>alive[k mod n]\<close> and leaves the
  counter at \<open>(k + 1) mod n\<close>. A window of \<open>m\<close> consecutive picks therefore returns
  \<open>alive[(k + i) mod n]\<close> for \<open>i < m\<close>, every position of \<open>alive\<close> is hit \<open>m div n\<close> or
  \<open>(m + n - 1) div n\<close> times (the floor and the ceiling of \<open>m / n\<close>), and so is every alive
  backend, backends being distinct objects (\<open>distinct alive\<close>).
\<close>

theorem RoundRobin_window_fair:
  assumes "alive = getAliveBackends bs" and "alive \<noteq> []"
  shows "RoundRobin_getNextBackend bs k
           = (Some (alive ! (k mod length alive)), (k + 1) mod length alive)
         \<and> RoundRobin_picks m bs k
           = map (\<lambda>i. Some (alive ! ((k + i) mod length alive))) [0..<m]
         \<and> (\<forall>j < length alive.
               length (filter (\<lambda>i. (k + i) mod length alive = j) [0..<m]) = m div length alive
               \<or> length (filter (\<lambda>i. (k + i) mod length alive = j) [0..<m])
                    = (m + length alive - 1) div length alive)
         \<and> (distinct alive \<longrightarrow>
               (\<forall>b \<in> set alive.
                  count_list (RoundRobin_picks m bs k) (Some b) = m div length alive
                  \<or> count_list (RoundRobin_picks m bs k) (Some b)
                       = (m + length alive - 1) div length alive))"
proof -
  let ?n = "length alive"
  have ne: "getAliveBackends bs \<noteq> []" using assms by simp
  have n: "0 < ?n" using assms(2) by simp
  have pick: "RoundRobin_getNextBackend bs k
                = (Some (alive ! (k mod ?n)), (k + 1) mod ?n)"
    using RoundRobin_pick_alive [OF ne, of k] by (simp add: assms(1) [symmetric])
  have picks: "RoundRobin_picks m bs k = map (\<lambda>i. Some (alive ! ((k + i) mod ?n))) [0..<m]"
    using RoundRobin_picks_map [OF ne, of m k] by (simp add: assms(1) [symmetric])
  have hits: "length (filter (\<lambda>i. (k + i) mod ?n = j) [0..<m]) = m div ?n
              \<or> length (filter (\<lambda>i. (k + i) mod ?n = j) [0..<m]) = (m + ?n - 1) div ?n"
    if j: "j < ?n" for j
  proof -
    have "length (filter (\<lambda>i. (k + i) mod ?n = j) [0..<m])
            = (k + m + ?n - 1 - j) div ?n - (k + ?n - 1 - j) div ?n"
      by (rule residue_hits_closed [OF j])
    also have "k + m + ?n - 1 - j = (k + (?n - 1 - j)) + m" using j by simp
    also have "k + ?n - 1 - j = k + (?n - 1 - j)" using j by simp
    finally show ?thesis
      using window_floor_ceil [OF n, of "k + (?n - 1 - j)" m] by simp
  qed
  have counts: "count_list (RoundRobin_picks m bs k) (Some b) = m div ?n
                \<or> count_list (RoundRobin_picks m bs k) (Some b) = (m + ?n - 1) div ?n"
    if d: "distinct alive" and b: "b \<in> set alive" for b
  proof -
    obtain j where j: "j < ?n" "alive ! j = b"
      using b by (auto simp: in_set_conv_nth)
    have "count_list (RoundRobin_picks m bs k) (Some b)
            = length (filter (\<lambda>i. (k + i) mod ?n = j) [0..<m])"
      using count_picks [OF d j(1), of k "[0..<m]"] j(2) by (simp add: picks)
    then show ?thesis using hits [OF j(1)] by simp
  qed
  show ?thesis using pick picks hits counts by blast
qed

theorem RoundRobin_window_fair_witness:
  "getAliveBackends (backends mockConfig) \<noteq> []
   \<and> distinct (getAliveBackends (backends mockConfig))
   \<and> backends mockConfig ! 1 \<in> set (getAliveBackends (backends mockConfig))
   \<and> RoundRobin_getNextBackend (backends mockConfig) 3 = (Some (backends mockConfig ! 1), 0)
   \<and> RoundRobin_picks 3 (backends mockConfig) 0
       = [Some (backends mockConfig ! 0), Some (backends mockConfig ! 1),
          Some (backends mockConfig ! 0)]
   \<and> (length (filter (\<lambda>i. (3 + i) mod 2 = 1) [0..<5]) = 2
      \<or> length (filter (\<lambda>i. (3 + i) mod 2 = 1) [0..<5]) = 3)
   \<and> (count_list (RoundRobin_picks 5 (backends mockConfig) 3) (Some (backends mockConfig ! 1)) = 2
      \<or> count_list (RoundRobin_picks 5 (backends mockConfig) 3) (Some (backends mockConfig ! 1)) = 3)"
proof -
  have dist: "distinct (backends mockConfig)"
   and mem: "backends mockConfig ! 1 \<in> set (backends mockConfig)"
    by (simp_all add: mockConfig_def)
  have upt3: "[0..<3] = [0, 1, 2]" by (simp add: upt_rec)
  note at5 = RoundRobin_window_fair [of "backends mockConfig" "backends mockConfig" 3 5]
  note at3 = RoundRobin_window_fair [of "backends mockConfig" "backends mockConfig" 0 3]
  have pick: "RoundRobin_getNextBackend (backends mockConfig) 3 = (Some (backends mockConfig ! 1), 0)"
    using at5 by (simp add: mockConfig_alive)
  have picks: "RoundRobin_picks 3 (backends mockConfig) 0
       = [Some (backends mockConfig ! 0), Some (backends mockConfig ! 1),
          Some (backends mockConfig ! 0)]"
    using at3 by (simp add: mockConfig_alive upt3)
  have hits: "length (filter (\<lambda>i. (3 + i) mod 2 = 1) [0..<5]) = 2
      \<or> length (filter (\<lambda>i. (3 + i) mod 2 = 1) [0..<5]) = (3::nat)"
    using at5 [THEN conjunct2, THEN conjunct2, THEN conjunct1, THEN spec, of 1]
    by (simp add: mockConfig_alive)
  have counts: "count_list (RoundRobin_picks 5 (backends mockConfig) 3) (Some (backends mockConfig ! 1)) = 2
      \<or> count_list (RoundRobin_picks 5 (backends mockConfig) 3) (Some (backends mockConfig ! 1)) = 3"
    using at5 [THEN conjunct2, THEN conjunct2, THEN conjunct2] mem
    by (simp add: mockConfig_alive dist)
  show ?thesis
    using pick picks hits counts by (simp add: mockConfig_alive dist mem)
qed

section \<open>IP hash\<close>

subsection \<open>The JavaScript loop computes the 32-bit fold\<close>

lemma toInt32_sint: "toInt32 x = sint (word_of_int x :: 32 word)"
  by (simp add: toInt32_def sint_sbintrunc' signed_take_bit_eq_take_bit_shift take_bit_eq_mod)

lemma js_shl_sint: "js_shl (sint (w :: 32 word)) 5 = sint (push_bit 5 w)"
  by (simp add: js_shl_def toInt32_sint push_bit_eq_mult)

lemma js_and_same: "js_and x x = sint (word_of_int x :: 32 word)"
  by (simp add: js_and_def toInt32_sint)

lemma hashStep_sint:
  "hashStep (sint (w :: 32 word)) c = sint ((push_bit 5 w - w) + of_nat (of_char c))"
  by (simp add: hashStep_def Let_def js_shl_sint js_and_same)

lemma foldl_hashStep:
  "foldl hashStep (sint (w :: 32 word)) ip
     = sint (foldl (\<lambda>h c. (push_bit 5 h - h) + of_nat (of_char c)) w ip)"
  by (induction ip arbitrary: w) (simp_all add: hashStep_sint)

lemma ipHash_hash32: "ipHash ip = sint (hash32 ip)"
  using foldl_hashStep [of 0 ip] by (simp add: ipHash_def hash32_def)

text \<open>
  Claim C6. With a request and at least one alive backend, IP_HASH returns
  \<open>alive[abs(h) mod |alive|]\<close>, where \<open>h\<close> is the 32-bit fold \<open>h \<leftarrow> ((h << 5) - h) + c\<close>
  over the characters of the client address, read as a signed number, and the address
  is \<open>0.0.0.0\<close> when the request has none or an empty one. Hence two picks with the same
  client address and the same alive backends return the same backend.
\<close>

theorem IPHash_pick_by_hash:
  assumes "getAliveBackends bs \<noteq> []"
      and "getAliveBackends bs' = getAliveBackends bs"
      and "clientIp req' = clientIp req"
  shows "IPHash_getNextBackend bs (Some req)
           = Some (getAliveBackends bs !
                     (nat \<bar>sint (hash32 (case clientIp req of
                                            None \<Rightarrow> ''0.0.0.0''
                                          | Some ip \<Rightarrow> if ip = [] then ''0.0.0.0'' else ip))\<bar>
                      mod length (getAliveBackends bs)))
         \<and> IPHash_getNextBackend bs' (Some req') = IPHash_getNextBackend bs (Some req)"
  using assms
  by (simp add: IPHash_getNextBackend_def Let_def ipHash_hash32 clientIpOrDefault_def)

theorem IPHash_pick_by_hash_witness:
  "getAliveBackends (backends mockConfig) \<noteq> []
   \<and> getAliveBackends (deadB1 # backends mockConfig) = getAliveBackends (backends mockConfig)
   \<and> clientIp (clientReq 7 5) = clientIp (clientReq 0 0)
   \<and> sint (hash32 ''10.0.10.9'') = - 1321720361
   \<and> IPHash_getNextBackend (backends mockConfig) (Some (clientReq 0 0))
       = Some (backends mockConfig ! 1)
   \<and> IPHash_getNextBackend (deadB1 # backends mockConfig) (Some (clientReq 7 5))
       = Some (backends mockConfig ! 1)"
proof -
  have h: "sint (hash32 ''10.0.10.9'') = - 1321720361" by (simp add: hash32_def)
  show ?thesis
    using IPHash_pick_by_hash
            [of "backends mockConfig" "deadB1 # backends mockConfig" "clientReq 7 5"
                "clientReq 0 0"]
    by (simp add: mockConfig_alive h clientReq_def)
qed

subsection \<open>Picks without a request, and with no backend alive\<close>

lemma IPHash_no_request: "IPHash_getNextBackend bs None = find (\<lambda>b. \<not> isDead b) bs"
  by (induction bs) (simp_all add: IPHash_getNextBackend_def getAliveBackends_def)

lemma find_alive_Some:
  "getAliveBackends bs \<noteq> [] \<Longrightarrow> find (\<lambda>b. \<not> isDead b) bs = Some (hd (getAliveBackends bs))"
  by (induction bs) (auto simp: getAliveBackends_def split: if_splits)

lemma none_alive_no_pick:
  "getAliveBackends bs = [] \<Longrightarrow> fst (getNextBackend balancer bs u req) = None"
  by (cases balancer)
     (simp_all add: RoundRobin_getNextBackend_def Random_getNextBackend_def
        IPHash_getNextBackend_def)

text \<open>
  Claim C10. When some backend of the list \<open>bs\<close> is alive, IP_HASH called without a
  request returns the first alive backend in list order. When no backend of the list
  \<open>ds\<close> is alive, the pick of every balancer (round robin at any counter, random at any
  draw, IP hash with or without a request, and so the balancer created for each of the
  four strategy tags) returns none.
\<close>

theorem pick_without_request_and_none_alive:
  assumes "getAliveBackends bs \<noteq> []" and "getAliveBackends ds = []"
  shows "IPHash_getNextBackend bs None = Some (hd (getAliveBackends bs))
         \<and> find (\<lambda>b. \<not> isDead b) bs = Some (hd (getAliveBackends bs))
         \<and> fst (getNextBackend balancer ds u req) = None
         \<and> fst (getNextBackend (createLoadBalancer strat) ds u req) = None"
  using assms
  by (simp add: IPHash_no_request find_alive_Some none_alive_no_pick)

theorem pick_without_request_and_none_alive_witness:
  "getAliveBackends (deadB1 # backends mockConfig) \<noteq> []
   \<and> getAliveBackends [deadB1] = []
   \<and> IPHash_getNextBackend (deadB1 # backends mockConfig) None = Some (backends mockConfig ! 0)
   \<and> fst (getNextBackend RandomLoadBalancer [deadB1] (1 / 2) None) = None
   \<and> fst (getNextBackend (createLoadBalancer LEAST_LATENCY) [deadB1] (1 / 2) None) = None"
  using pick_without_request_and_none_alive
          [of "deadB1 # backends mockConfig" "[deadB1]" RandomLoadBalancer "1 / 2" None
              LEAST_LATENCY]
  by (simp add: mockConfig_alive)

section \<open>Failure accounting of a route\<close>

lemma recordFailure_id: "backend_id (recordFailure now b) = backend_id b"
  by (simp add: recordFailure_def Let_def)

lemma find_failFirst:
  "find (\<lambda>b. backend_id b = bid) bs = Some b \<Longrightarrow>
   find (\<lambda>b. backend_id b = bid) (failFirst bid now bs) = Some (recordFailure now b)"
  by (induction bs) (auto simp: recordFailure_id split: if_splits)

lemma quarantinedRoute_b1:
  "find (\<lambda>x. backend_id x = ''b1'') (backends (config quarantinedRoute))
     = Some \<lparr>backend_id = ''b1'', hostname = ''host1'', port = 80, isDead = True,
             deadSince = Some 100, failureCount = 3\<rparr>"
  by (simp add: quarantinedRoute_def mockRoute_def mockConfig_def markBackendFailure_def
        recordFailure_def)

text \<open>
  Claim C2 as stated: a further \<open>markFailure\<close> on a quarantined backend increments
  \<open>failureCount\<close> and leaves \<open>deadSince\<close> as it was. It fails: \<open>b1\<close> of the test route,
  quarantined at time 100 by its third failure, fails again at time 200, and \<open>deadSince\<close>
  becomes 200.
\<close>

theorem markFailure_keeps_deadSince_counterexample:
  "isDead (backends (config quarantinedRoute) ! 0)
   \<and> backend_id (backends (config quarantinedRoute) ! 0) = ''b1''
   \<and> deadSince (backends (config quarantinedRoute) ! 0) = Some 100
   \<and> \<not> (failureCount (backends (config (markBackendFailure quarantinedRoute 200 ''b1'')) ! 0)
          = failureCount (backends (config quarantinedRoute) ! 0) + 1
        \<and> deadSince (backends (config (markBackendFailure quarantinedRoute 200 ''b1'')) ! 0)
          = deadSince (backends (config quarantinedRoute) ! 0))"
  by (simp add: quarantinedRoute_def mockRoute_def mockConfig_def markBackendFailure_def
        recordFailure_def)

text \<open>
  Claim C2 as amended. For a quarantined backend \<open>b\<close> (the first with its id in the
  route), a further \<open>markFailure\<close> increments \<open>failureCount\<close> by one and leaves \<open>isDead\<close>
  true; \<open>deadSince\<close> is set to the time of this call whenever the incremented count is at
  least 3, which is so for every backend that was quarantined by crossing the threshold,
  and is kept otherwise.
\<close>

theorem markFailure_after_quarantine:
  assumes "find (\<lambda>x. backend_id x = backendId) (backends (config r)) = Some b"
      and "isDead b"
  shows "find (\<lambda>x. backend_id x = backendId)
           (backends (config (markBackendFailure r now backendId)))
         = Some (b\<lparr>failureCount := failureCount b + 1,
                   deadSince := (if failureCount b + 1 \<ge> 3 then Some now else deadSince b)\<rparr>)"
  using find_failFirst [OF assms(1), of now] assms(2)
  by (simp add: markBackendFailure_def recordFailure_def Let_def)

theorem markFailure_after_quarantine_witness:
  "find (\<lambda>x. backend_id x = ''b1'') (backends (config quarantinedRoute))
     = Some \<lparr>backend_id = ''b1'', hostname = ''host1'', port = 80, isDead = True,
             deadSince = Some 100, failureCount = 3\<rparr>
   \<and> find (\<lambda>x. backend_id x = ''b1'')
        (backends (config (markBackendFailure quarantinedRoute 200 ''b1'')))
     = Some \<lparr>backend_id = ''b1'', hostname = ''host1'', port = 80, isDead = True,
             deadSince = Some 200, failureCount = 4\<rparr>"
  using markFailure_after_quarantine [OF quarantinedRoute_b1, of 200]
  by (simp add: quarantinedRoute_b1)

section \<open>Rounding of doubles\<close>

lemma pow2_powr: "pow2 k = 2 powr (real_of_int k)"
  by (simp add: pow2_def powr_real_of_int inverse_eq_divide)

lemma pow2_pos: "0 < pow2 k"
  by (simp add: pow2_powr)

lemma pow2_add: "pow2 (a + b) = pow2 a * pow2 b"
  by (simp add: pow2_powr powr_add)

lemma roundHalfEven_error: "\<bar>of_int (roundHalfEven y) - y\<bar> \<le> 1 / 2"
  by (auto simp: roundHalfEven_def Let_def abs_if) linarith+

lemma binade_eq:
  assumes "pow2 e \<le> \<bar>x\<bar>" and "\<bar>x\<bar> < pow2 (e + 1)" and "- 1022 \<le> e"
  shows "binade x = e"
proof -
  have pos: "0 < \<bar>x\<bar>" using assms(1) pow2_pos [of e] by linarith
  have "\<lfloor>log 2 \<bar>x\<bar>\<rfloor> = e"
    using assms(1,2) pos by (simp add: floor_log_eq_powr_iff pow2_powr)
  then show ?thesis using assms(3) by (simp add: binade_def)
qed

lemma roundDouble_eval:
  assumes "pow2 e \<le> \<bar>x\<bar>" and "\<bar>x\<bar> < pow2 (e + 1)" and "- 1022 \<le> e"
  shows "roundDouble x = of_int (roundHalfEven (x / pow2 (e - 52))) * pow2 (e - 52)"
proof -
  have "x \<noteq> 0" using assms(1) pow2_pos [of e] by auto
  then show ?thesis by (simp add: roundDouble_def binade_eq [OF assms])
qed

subsection \<open>The values met in the examples\<close>

lemma double_lit_values:
  "double_lit 0.1 = 3602879701896397 / 2 ^ 55"
  "double_lit 0.9 = 8106479329266893 / 2 ^ 53"
proof -
  show "double_lit 0.1 = 3602879701896397 / 2 ^ 55"
    unfolding double_lit_def
    by (subst roundDouble_eval [of "- 4"]) (simp_all add: pow2_def roundHalfEven_def Let_def)
  show "double_lit 0.9 = 8106479329266893 / 2 ^ 53"
    unfolding double_lit_def
    by (subst roundDouble_eval [of "- 1"]) (simp_all add: pow2_def roundHalfEven_def Let_def)
qed

lemma double_zero: "double_mul 0 y = 0" "double_add 0 y = roundDouble y"
  by (simp_all add: double_mul_def double_add_def roundDouble_def)

lemma double_mul_values:
  "double_mul 3 (double_lit 0.1) = 5404319552844596 / 2 ^ 54"
  "double_mul 100 (double_lit 0.1) = 10"
  "double_mul 200 (double_lit 0.1) = 20"
  "double_mul 500 (double_lit 0.1) = 50"
  "double_mul 10 (double_lit 0.9) = 9"
proof -
  show "double_mul 3 (double_lit 0.1) = 5404319552844596 / 2 ^ 54"
    unfolding double_mul_def double_lit_values
    by (subst roundDouble_eval [of "- 2"]) (simp_all add: pow2_def roundHalfEven_def Let_def)
  show "double_mul 100 (double_lit 0.1) = 10"
    unfolding double_mul_def double_lit_values
    by (subst roundDouble_eval [of 3]) (simp_all add: pow2_def roundHalfEven_def Let_def)
  show "double_mul 200 (double_lit 0.1) = 20"
    unfolding double_mul_def double_lit_values
    by (subst roundDouble_eval [of 4]) (simp_all add: pow2_def roundHalfEven_def Let_def)
  show "double_mul 500 (double_lit 0.1) = 50"
    unfolding double_mul_def double_lit_values
    by (subst roundDouble_eval [of 5]) (simp_all add: pow2_def roundHalfEven_def Let_def)
  show "double_mul 10 (double_lit 0.9) = 9"
    unfolding double_mul_def double_lit_values
    by (subst roundDouble_eval [of 3]) (simp_all add: pow2_def roundHalfEven_def Let_def)
qed

lemma roundDouble_values:
  "roundDouble (5404319552844596 / 2 ^ 54) = 5404319552844596 / 2 ^ 54"
  "roundDouble 10 = 10" "roundDouble 19 = 19" "roundDouble 20 = 20" "roundDouble 50 = 50"
proof -
  show "roundDouble (5404319552844596 / 2 ^ 54) = 5404319552844596 / 2 ^ 54"
    by (subst roundDouble_eval [of "- 2"]) (simp_all add: pow2_def roundHalfEven_def Let_def)
  show "roundDouble 10 = 10"
    by (subst roundDouble_eval [of 3]) (simp_all add: pow2_def roundHalfEven_def Let_def)
  show "roundDouble 19 = 19"
    by (subst roundDouble_eval [of 4]) (simp_all add: pow2_def roundHalfEven_def Let_def)
  show "roundDouble 20 = 20"
    by (subst roundDouble_eval [of 4]) (simp_all add: pow2_def roundHalfEven_def Let_def)
  show "roundDouble 50 = 50"
    by (subst roundDouble_eval [of 5]) (simp_all add: pow2_def roundHalfEven_def Let_def)
qed

subsection \<open>The error of one rounding\<close>

lemma roundDouble_quantum: "\<bar>roundDouble x - x\<bar> \<le> pow2 (binade x - 53)"
proof (cases "x = 0")
  case True
  then show ?thesis using pow2_pos [of "binade x - 53"] by (simp add: roundDouble_def)
next
  case False
  let ?q = "pow2 (binade x - 52)"
  have q: "0 < ?q" by (rule pow2_pos)
  have "roundDouble x - x = (of_int (roundHalfEven (x / ?q)) - x / ?q) * ?q"
    using False q by (simp add: roundDouble_def field_simps)
  then have "\<bar>roundDouble x - x\<bar> = \<bar>of_int (roundHalfEven (x / ?q)) - x / ?q\<bar> * ?q"
    using q by (simp add: abs_mult)
  also have "\<dots> \<le> (1 / 2) * ?q"
    using roundHalfEven_error [of "x / ?q"] q by (intro mult_right_mono) simp_all
  also have "(1 / 2) * ?q = pow2 (binade x - 53)"
    using pow2_add [of "binade x - 53" 1] by (simp add: pow2_def)
  finally show ?thesis .
qed

lemma roundDouble_error: "\<bar>roundDouble x - x\<bar> \<le> \<bar>x\<bar> / 2 ^ 53 + 1 / 2 ^ 1075"
proof (cases "x = 0")
  case True
  then show ?thesis by (simp add: roundDouble_def)
next
  case False
  show ?thesis
  proof (cases "- 1022 \<le> \<lfloor>log 2 \<bar>x\<bar>\<rfloor>")
    case True
    then have b: "binade x = \<lfloor>log 2 \<bar>x\<bar>\<rfloor>" by (simp add: binade_def)
    have "pow2 (binade x) \<le> \<bar>x\<bar>"
      using False floor_log_eq_powr_iff [of "\<bar>x\<bar>" 2 "\<lfloor>log 2 \<bar>x\<bar>\<rfloor>"]
      by (simp add: b pow2_powr)
    moreover have "pow2 (binade x - 53) = pow2 (binade x) * (1 / 2 ^ 53)"
      using pow2_add [of "binade x" "- 53"] by (simp add: pow2_def)
    ultimately have "pow2 (binade x - 53) \<le> \<bar>x\<bar> / 2 ^ 53"
      by (simp add: field_simps)
    then show ?thesis using roundDouble_quantum [of x] by simp
  next
    case False
    then have "binade x = - 1022" by (simp add: binade_def)
    then have "pow2 (binade x - 53) = 1 / 2 ^ 1075" by (simp add: pow2_def)
    then show ?thesis using roundDouble_quantum [of x] by simp
  qed
qed

subsection \<open>The error of the moving average\<close>

lemma abs_near:
  fixes c k u :: real
  assumes "\<bar>c - k\<bar> \<le> k * u" and "0 \<le> k"
  shows "\<bar>c\<bar> \<le> k * (1 + u)"
proof -
  have "\<bar>c\<bar> \<le> \<bar>c - k\<bar> + k" using assms(2) by linarith
  then have "\<bar>c\<bar> \<le> k * u + k" using assms(1) by linarith
  then show ?thesis by (simp add: distrib_left)
qed

lemma scaled_near:
  fixes x c k u :: real
  assumes "\<bar>c - k\<bar> \<le> k * u" and "0 \<le> k"
  shows "\<bar>x * c\<bar> \<le> (k * \<bar>x\<bar>) * (1 + u)" and "\<bar>x * c - k * x\<bar> \<le> (k * \<bar>x\<bar>) * u"
proof -
  have "\<bar>x\<bar> * \<bar>c\<bar> \<le> \<bar>x\<bar> * (k * (1 + u))"
    using abs_near [OF assms] by (intro mult_left_mono) simp_all
  then show "\<bar>x * c\<bar> \<le> (k * \<bar>x\<bar>) * (1 + u)" by (simp add: abs_mult algebra_simps)
  have "\<bar>x * c - k * x\<bar> = \<bar>x\<bar> * \<bar>c - k\<bar>"
    by (simp add: abs_mult [symmetric] algebra_simps)
  also have "\<dots> \<le> \<bar>x\<bar> * (k * u)" using assms(1) by (intro mult_left_mono) simp_all
  finally show "\<bar>x * c - k * x\<bar> \<le> (k * \<bar>x\<bar>) * u" by (simp add: algebra_simps)
qed

lemma ewma_rounding:
  fixes avg d c9 c1 a b r u h :: real
  assumes u: "0 \<le> u" "u \<le> 1 / 4" and h: "0 \<le> h"
      and c9: "\<bar>c9 - 9 / 10\<bar> \<le> 9 / 10 * u" and c1: "\<bar>c1 - 1 / 10\<bar> \<le> 1 / 10 * u"
      and a: "\<bar>a - avg * c9\<bar> \<le> u * \<bar>avg * c9\<bar> + h"
      and b: "\<bar>b - d * c1\<bar> \<le> u * \<bar>d * c1\<bar> + h"
      and r: "\<bar>r - (a + b)\<bar> \<le> u * \<bar>a + b\<bar> + h"
  shows "\<bar>r - (9 / 10 * avg + 1 / 10 * d)\<bar>
           \<le> 4 * u * (9 / 10 * \<bar>avg\<bar> + 1 / 10 * \<bar>d\<bar>) + 4 * h"
proof -
  define A where "A = 9 / 10 * \<bar>avg\<bar>"
  define D where "D = 1 / 10 * \<bar>d\<bar>"
  define M where "M = A + D"
  have A: "0 \<le> A" and D: "0 \<le> D" by (simp_all add: A_def D_def)
  have M: "0 \<le> M" using A D by (simp add: M_def)
  have pa: "\<bar>avg * c9\<bar> \<le> A * (1 + u)" and qa: "\<bar>avg * c9 - 9 / 10 * avg\<bar> \<le> A * u"
    unfolding A_def by (rule scaled_near [OF c9], simp)+
  have pd: "\<bar>d * c1\<bar> \<le> D * (1 + u)" and qd: "\<bar>d * c1 - 1 / 10 * d\<bar> \<le> D * u"
    unfolding D_def by (rule scaled_near [OF c1], simp)+
  have ua: "u * \<bar>avg * c9\<bar> \<le> u * (A * (1 + u))" using pa u(1) by (rule mult_left_mono)
  have ud: "u * \<bar>d * c1\<bar> \<le> u * (D * (1 + u))" using pd u(1) by (rule mult_left_mono)
  define X where "X = M * u + u * (M * (1 + u)) + 2 * h"
  have "\<bar>(a + b) - (9 / 10 * avg + 1 / 10 * d)\<bar>
          \<le> \<bar>a - avg * c9\<bar> + \<bar>b - d * c1\<bar>
            + \<bar>avg * c9 - 9 / 10 * avg\<bar> + \<bar>d * c1 - 1 / 10 * d\<bar>"
    by linarith
  also have "\<dots> \<le> (u * (A * (1 + u)) + h) + (u * (D * (1 + u)) + h) + A * u + D * u"
    using a b qa qd ua ud by linarith
  also have "\<dots> = X" by (simp add: X_def M_def algebra_simps)
  finally have X: "\<bar>(a + b) - (9 / 10 * avg + 1 / 10 * d)\<bar> \<le> X" .
  have "\<bar>9 / 10 * avg + 1 / 10 * d\<bar> \<le> M" unfolding M_def A_def D_def by linarith
  then have ab: "\<bar>a + b\<bar> \<le> M + X" using X by linarith
  have "u * \<bar>a + b\<bar> \<le> u * (M + X)" using ab u(1) by (rule mult_left_mono)
  then have total: "\<bar>r - (9 / 10 * avg + 1 / 10 * d)\<bar> \<le> u * (M + X) + h + X"
    using r X by linarith
  define T where "T = M * u"
  define P where "P = M * (u * u)"
  define Q where "Q = M * (u * u * u)"
  define R where "R = u * h"
  have T: "0 \<le> T" using M u(1) by (simp add: T_def)
  have uu: "u * u \<le> u * (1 / 4)" using u by (intro mult_left_mono) simp_all
  have "M * (u * u) \<le> M * (u * (1 / 4))" using uu M by (rule mult_left_mono)
  then have P: "P \<le> T / 4" by (simp add: P_def T_def)
  have "u * u * u \<le> (u * (1 / 4)) * (1 / 4)" by (intro mult_mono) (use uu u in simp_all)
  then have "M * (u * u * u) \<le> M * ((u * (1 / 4)) * (1 / 4))" using M by (rule mult_left_mono)
  then have Q: "Q \<le> T / 16" by (simp add: Q_def T_def)
  have "u * h \<le> (1 / 4) * h" using u h by (intro mult_right_mono) simp_all
  then have R: "R \<le> h / 4" by (simp add: R_def)
  have "u * (M + X) + h + X = 3 * T + 3 * P + Q + 2 * R + 3 * h"
    by (simp add: X_def T_def P_def Q_def R_def algebra_simps)
  then have "u * (M + X) + h + X \<le> 4 * T + 4 * h"
    using P Q R T h by linarith
  then have "\<bar>r - (9 / 10 * avg + 1 / 10 * d)\<bar> \<le> 4 * T + 4 * h"
    using total by linarith
  then show ?thesis by (simp add: T_def M_def A_def D_def algebra_simps)
qed

lemma double_lit_near:
  "\<bar>double_lit 0.9 - 9 / 10\<bar> \<le> 9 / 10 * (1 / 2 ^ 53)"
  "\<bar>double_lit 0.1 - 1 / 10\<bar> \<le> 1 / 10 * (1 / 2 ^ 53)"
  by (simp_all add: double_lit_values)

lemma double_ewma_error:
  "\<bar>double_add (double_mul avg (double_lit 0.9)) (double_mul d (double_lit 0.1))
     - (0.9 * avg + 0.1 * d)\<bar>
   \<le> (0.9 * \<bar>avg\<bar> + 0.1 * \<bar>d\<bar>) / 2 ^ 51 + 1 / 2 ^ 1073"
proof -
  let ?u = "1 / 2 ^ 53 :: real" and ?h = "1 / 2 ^ 1075 :: real"
  let ?a = "double_mul avg (double_lit 0.9)" and ?b = "double_mul d (double_lit 0.1)"
  have a: "\<bar>?a - avg * double_lit 0.9\<bar> \<le> ?u * \<bar>avg * double_lit 0.9\<bar> + ?h"
    using roundDouble_error [of "avg * double_lit 0.9"] by (simp add: double_mul_def)
  have b: "\<bar>?b - d * double_lit 0.1\<bar> \<le> ?u * \<bar>d * double_lit 0.1\<bar> + ?h"
    using roundDouble_error [of "d * double_lit 0.1"] by (simp add: double_mul_def)
  have r: "\<bar>double_add ?a ?b - (?a + ?b)\<bar> \<le> ?u * \<bar>?a + ?b\<bar> + ?h"
    using roundDouble_error [of "?a + ?b"] by (simp add: double_add_def)
  have "\<bar>double_add ?a ?b - (9 / 10 * avg + 1 / 10 * d)\<bar>
          \<le> 4 * ?u * (9 / 10 * \<bar>avg\<bar> + 1 / 10 * \<bar>d\<bar>) + 4 * ?h"
    by (rule ewma_rounding [OF _ _ _ double_lit_near a b r]) simp_all
  also have "4 * ?u * (9 / 10 * \<bar>avg\<bar> + 1 / 10 * \<bar>d\<bar>) + 4 * ?h
               = (9 / 10 * \<bar>avg\<bar> + 1 / 10 * \<bar>d\<bar>) / 2 ^ 51 + 1 / 2 ^ 1073"
    by simp
  finally show ?thesis by simp
qed

section \<open>Tracker counters\<close>

lemma getStats_nonneg: "activeNonNeg t \<Longrightarrow> 0 \<le> requestsActive (getStats t v)"
  by (auto simp: activeNonNeg_def getStats_def split: option.splits)

lemma applyTrackerOp_nonneg:
  assumes "activeNonNeg t"
  shows "activeNonNeg (applyTrackerOp t op)"
proof (cases op)
  case (TrackStart v)
  then show ?thesis
    using assms getStats_nonneg [OF assms, of v]
    by (auto simp: activeNonNeg_def trackRequestStart_def Let_def)
next
  case (TrackEnd req success now)
  then show ?thesis
    using assms by (auto simp: activeNonNeg_def trackRequestEnd_def Let_def)
next
  case (TrackErr v code)
  then show ?thesis
    using assms getStats_nonneg [OF assms, of v]
    by (auto simp: activeNonNeg_def trackError_def Let_def)
next
  case (RemoveStats v)
  then show ?thesis
    using assms by (auto simp: activeNonNeg_def removeStats_def)
qed

lemma foldl_applyTrackerOp_nonneg:
  "activeNonNeg t \<Longrightarrow> activeNonNeg (foldl applyTrackerOp t ops)"
  by (induction ops arbitrary: t) (simp_all add: applyTrackerOp_nonneg)

text \<open>
  Claim C9. \<open>onEnd(pr, success)\<close> turns \<open>requestsActive\<close> of the request's host into
  \<open>max(0, requestsActive - 1)\<close>, increments \<open>errorsTotal\<close> exactly when \<open>success\<close> is false
  and leaves \<open>requestsTotal\<close>; the counters read are those of \<open>getStats\<close>, zero for a host
  without an entry. \<open>avgLatencyMs\<close> becomes \<open>(avgLatencyMs * 0.9) + (duration * 0.1)\<close> with
  \<open>duration = now - startTime\<close>, computed in double arithmetic: it is the sum of the two
  products, each of the three operations and each literal rounded to a double, and it
  differs from the real number \<open>0.9 * avgLatencyMs + 0.1 * duration\<close> by at most
  \<open>(0.9 * |avgLatencyMs| + 0.1 * |duration|) / 2^51 + 2^-1073\<close>. Consequently, after any
  sequence of tracker operations on a new tracker, no entry has a negative
  \<open>requestsActive\<close>.
\<close>

theorem trackRequestEnd_effect:
  "requestsActive (getStats (trackRequestEnd t req success now) (meta_vHost req))
     = max 0 (requestsActive (getStats t (meta_vHost req)) - 1)
   \<and> errorsTotal (getStats (trackRequestEnd t req success now) (meta_vHost req))
     = errorsTotal (getStats t (meta_vHost req)) + (if success then 0 else 1)
   \<and> avgLatencyMs (getStats (trackRequestEnd t req success now) (meta_vHost req))
     = double_add (double_mul (avgLatencyMs (getStats t (meta_vHost req))) (double_lit 0.9))
                  (double_mul (real_of_int (now - startTime req)) (double_lit 0.1))
   \<and> \<bar>avgLatencyMs (getStats (trackRequestEnd t req success now) (meta_vHost req))
        - (0.9 * avgLatencyMs (getStats t (meta_vHost req))
           + 0.1 * real_of_int (now - startTime req))\<bar>
     \<le> (0.9 * \<bar>avgLatencyMs (getStats t (meta_vHost req))\<bar>
          + 0.1 * \<bar>real_of_int (now - startTime req)\<bar>) / 2 ^ 51 + 1 / 2 ^ 1073
   \<and> requestsTotal (getStats (trackRequestEnd t req success now) (meta_vHost req))
     = requestsTotal (getStats t (meta_vHost req))
   \<and> (\<forall>v s. foldl applyTrackerOp Map.empty ops v = Some s \<longrightarrow> 0 \<le> requestsActive s)"
proof -
  have inv: "activeNonNeg (foldl applyTrackerOp Map.empty ops)"
    by (rule foldl_applyTrackerOp_nonneg) (simp add: activeNonNeg_def)
  have avg: "avgLatencyMs (getStats (trackRequestEnd t req success now) (meta_vHost req))
     = double_add (double_mul (avgLatencyMs (getStats t (meta_vHost req))) (double_lit 0.9))
                  (double_mul (real_of_int (now - startTime req)) (double_lit 0.1))"
    by (simp add: trackRequestEnd_def getStats_def Let_def)
  have bound: "\<bar>avgLatencyMs (getStats (trackRequestEnd t req success now) (meta_vHost req))
        - (0.9 * avgLatencyMs (getStats t (meta_vHost req))
           + 0.1 * real_of_int (now - startTime req))\<bar>
     \<le> (0.9 * \<bar>avgLatencyMs (getStats t (meta_vHost req))\<bar>
          + 0.1 * \<bar>real_of_int (now - startTime req)\<bar>) / 2 ^ 51 + 1 / 2 ^ 1073"
    unfolding avg by (rule double_ewma_error)
  have counters: "requestsActive (getStats (trackRequestEnd t req success now) (meta_vHost req))
     = max 0 (requestsActive (getStats t (meta_vHost req)) - 1)
   \<and> errorsTotal (getStats (trackRequestEnd t req success now) (meta_vHost req))
     = errorsTotal (getStats t (meta_vHost req)) + (if success then 0 else 1)
   \<and> requestsTotal (getStats (trackRequestEnd t req success now) (meta_vHost req))
     = requestsTotal (getStats t (meta_vHost req))"
    by (simp add: trackRequestEnd_def getStats_def Let_def)
  show ?thesis
    using inv avg bound counters unfolding activeNonNeg_def by blast
qed

text \<open>
  The witness: the request ended twice leaves \<open>requestsActive\<close> at 0 and the average at
  19; a request of 3 ms on a new tracker gives the double \<open>0.30000000000000004\<close>, which
  is not \<open>3/10\<close> and is within the bound.
\<close>

theorem trackRequestEnd_effect_witness:
  "foldl applyTrackerOp Map.empty endedTwice ''test.com''
     = Some \<lparr>requestsTotal = 1, requestsActive = 0, errorsTotal = 1, avgLatencyMs = 19\<rparr>
   \<and> 0 \<le> requestsActive
           \<lparr>requestsTotal = 1, requestsActive = 0, errorsTotal = 1, avgLatencyMs = 19\<rparr>
   \<and> avgLatencyMs (getStats (trackRequestEnd Map.empty quickReq True 1100) (meta_vHost quickReq))
     = 5404319552844596 / 2 ^ 54
   \<and> avgLatencyMs (getStats (trackRequestEnd Map.empty quickReq True 1100) (meta_vHost quickReq))
     \<noteq> 3 / 10
   \<and> \<bar>avgLatencyMs (getStats (trackRequestEnd Map.empty quickReq True 1100) (meta_vHost quickReq))
        - 3 / 10\<bar> \<le> (3 / 10) / 2 ^ 51 + 1 / 2 ^ 1073"
proof -
  have ran: "foldl applyTrackerOp Map.empty endedTwice ''test.com''
     = Some \<lparr>requestsTotal = 1, requestsActive = 0, errorsTotal = 1, avgLatencyMs = 19\<rparr>"
    by (simp add: endedTwice_def mockReq_def trackRequestStart_def trackRequestEnd_def
          getStats_def Let_def double_zero double_mul_values double_add_def roundDouble_values)
  have third: "double_add 0 (double_mul 3 (double_lit 0.1)) = 5404319552844596 / 2 ^ 54"
    by (simp only: double_zero double_mul_values roundDouble_values)
  have quick: "avgLatencyMs (getStats (trackRequestEnd Map.empty quickReq True 1100)
                 (meta_vHost quickReq)) = 5404319552844596 / 2 ^ 54"
    by (simp add: quickReq_def trackRequestEnd_def getStats_def Let_def double_zero(1) third)
  have start: "avgLatencyMs (getStats Map.empty (meta_vHost quickReq)) = 0"
              "real_of_int (1100 - startTime quickReq) = 3"
    by (simp_all add: getStats_def quickReq_def)
  note at = trackRequestEnd_effect [of Map.empty quickReq True 1100 endedTwice]
  have bound: "\<bar>avgLatencyMs (getStats (trackRequestEnd Map.empty quickReq True 1100)
                   (meta_vHost quickReq)) - 3 / 10\<bar> \<le> (3 / 10) / 2 ^ 51 + 1 / 2 ^ 1073"
    using at [THEN conjunct2, THEN conjunct2, THEN conjunct2, THEN conjunct1]
    unfolding start by simp
  have nonneg: "0 \<le> requestsActive
           \<lparr>requestsTotal = 1, requestsActive = 0, errorsTotal = 1, avgLatencyMs = 19\<rparr>"
    using at ran by blast
  show ?thesis
    using ran nonneg quick bound by simp
qed

section \<open>Queue pump and finalize\<close>

subsection \<open>What the pump does\<close>

lemma pumpLoop_stop:
  assumes "\<not> (canHandleRequest r \<and> getQueueLength r > 0)"
  shows "pumpLoop r = (r, [])"
  by (subst pumpLoop.simps) (rule if_not_P [OF assms])

lemma pumpLoop_go:
  assumes "canHandleRequest r \<and> getQueueLength r > 0"
  shows "pumpLoop r =
           (case dequeue r of
              (None, r1) \<Rightarrow> pumpLoop r1
            | (Some queuedReq, r1) \<Rightarrow>
                (case pumpLoop r1 of (r2, scheduled) \<Rightarrow> (r2, queuedReq # scheduled)))"
  by (subst pumpLoop.simps) (rule if_P [OF assms])

lemma pumpLoop_drains:
  "queue r = qs \<Longrightarrow>
   pumpLoop r = (if canHandleRequest r then (r\<lparr>queue := []\<rparr>, qs) else (r, []))"
proof (induction qs arbitrary: r)
  case Nil
  then have "pumpLoop r = (r, [])"
    by (intro pumpLoop_stop) (simp add: getQueueLength_def)
  moreover have "r\<lparr>queue := []\<rparr> = r" using Nil by simp
  ultimately show ?case using Nil by simp
next
  case (Cons q qs)
  show ?case
  proof (cases "canHandleRequest r")
    case False
    then show ?thesis by (simp add: pumpLoop_stop)
  next
    case True
    have d: "dequeue r = (Some q, r\<lparr>queue := qs\<rparr>)"
      using Cons.prems by (simp add: dequeue_def)
    have can: "canHandleRequest (r\<lparr>queue := qs\<rparr>)"
      using True by (simp add: canHandleRequest_def)
    have "pumpLoop (r\<lparr>queue := qs\<rparr>) = (r\<lparr>queue := []\<rparr>, qs)"
      using Cons.IH [of "r\<lparr>queue := qs\<rparr>"] can by simp
    moreover have "canHandleRequest r \<and> getQueueLength r > 0"
      using True Cons.prems by (simp add: getQueueLength_def)
    ultimately show ?thesis
      using True by (simp add: pumpLoop_go d)
  qed
qed

lemma pumpQueue_eq:
  "pumpQueue s a =
     (if canHandleRequest (routeHeap s a)
      then (setRoute s a ((routeHeap s a)\<lparr>queue := []\<rparr>))
             \<lparr>ticks := ticks s @ map (\<lambda>q. (a, q)) (queue (routeHeap s a))\<rparr>
      else s)"
  by (simp add: pumpQueue_def pumpLoop_drains [OF refl] setRoute_def)

lemma pumpQueue_frame:
  "reqs (pumpQueue s a) = reqs s" "conns (pumpQueue s a) = conns s"
  "tracker (pumpQueue s a) = tracker s" "routes (pumpQueue s a) = routes s"
  "timers (pumpQueue s a) = timers s" "nextReq (pumpQueue s a) = nextReq s"
  by (simp_all add: pumpQueue_eq setRoute_def)

lemma pumpQueue_config: "config (routeHeap (pumpQueue s a) a') = config (routeHeap s a')"
  by (simp add: pumpQueue_eq setRoute_def)

lemma pumpQueue_active:
  "activeRequests (routeHeap (pumpQueue s a) a') = activeRequests (routeHeap s a')"
  by (simp add: pumpQueue_eq setRoute_def)

subsection \<open>Effects of finalize\<close>

lemma trackRequestEnd_isEnded:
  "trackRequestEnd t (pr\<lparr>isEnded := e\<rparr>) ok now = trackRequestEnd t pr ok now"
  by (simp add: trackRequestEnd_def)

lemma finalizeRequest_ended: "isEnded (reqs s p) \<Longrightarrow> finalizeRequest s now p ok = s"
  by (simp add: finalizeRequest_def)

lemma finalizeRequest_reqs:
  "reqs (finalizeRequest s now p ok) = (reqs s)(p := (reqs s p)\<lparr>isEnded := True\<rparr>)"
  by (auto simp: finalizeRequest_def Let_def setReq_def setConn_def setRoute_def pumpQueue_frame
        split: option.splits)

lemma finalizeRequest_latch: "isEnded (reqs (finalizeRequest s now p ok) p)"
  by (simp add: finalizeRequest_reqs)

lemma finalizeRequest_res: "res (conns (finalizeRequest s now p ok) c) = res (conns s c)"
  by (simp add: finalizeRequest_def Let_def setReq_def setConn_def setRoute_def pumpQueue_frame
        split: option.splits)

lemma finalizeRequest_routes: "routes (finalizeRequest s now p ok) = routes s"
  by (simp add: finalizeRequest_def Let_def setReq_def setConn_def setRoute_def pumpQueue_frame
        split: option.splits)

lemma finalizeRequest_config:
  "config (routeHeap (finalizeRequest s now p ok) a) = config (routeHeap s a)"
  by (simp add: finalizeRequest_def Let_def setReq_def setConn_def setRoute_def pumpQueue_config
        split: option.splits)

lemma finalizeRequest_active:
  assumes "\<not> isEnded (reqs s p)" and "getRoute s (meta_vHost (reqs s p)) = Some a"
  shows "activeRequests (routeHeap (finalizeRequest s now p ok) a)
           = max 0 (activeRequests (routeHeap s a) - 1)"
    and "tracker (finalizeRequest s now p ok) = trackRequestEnd (tracker s) (reqs s p) ok now"
  using assms
  by (simp_all add: finalizeRequest_def Let_def setReq_def setConn_def setRoute_def getRoute_def
        pumpQueue_active pumpQueue_frame trackRequestEnd_isEnded)

subsection \<open>The latch survives every event\<close>

lemma respond_frame:
  "reqs (respond s c st hs b) = reqs s" "nextReq (respond s c st hs b) = nextReq s"
  "routeHeap (respond s c st hs b) = routeHeap s" "tracker (respond s c st hs b) = tracker s"
  "routes (respond s c st hs b) = routes s" "ticks (respond s c st hs b) = ticks s"
  by (simp_all add: respond_def setConn_def)

lemma forward_latch:
  "isEnded (reqs (forward s u a q) p) = isEnded (reqs s p)"
  "nextReq (forward s u a q) = nextReq s"
  by (simp_all add: forward_def Let_def respond_frame setRoute_def setReq_def setConn_def
        split: prod.splits option.splits)

lemma dispatch_latch:
  "isEnded (reqs (dispatch s u a q) p) = isEnded (reqs s p)"
  "nextReq (dispatch s u a q) = nextReq s"
  by (simp_all add: dispatch_def Let_def forward_latch respond_frame setRoute_def)

lemma attach_latch:
  assumes "p < nextReq s"
  shows "isEnded (reqs (snd (attachProxyRequest s now c h ra)) p) = isEnded (reqs s p)"
    and "p < nextReq (snd (attachProxyRequest s now c h ra))"
  using assms by (simp_all add: attachProxyRequest_def Let_def setReq_def setConn_def)

lemma handleRequest_latch:
  assumes "p < nextReq s"
  shows "isEnded (reqs (handleRequest s now u c hh ra) p) = isEnded (reqs s p)
         \<and> p < nextReq (handleRequest s now u c hh ra)"
  using assms
  by (simp add: handleRequest_def Let_def case_prod_beta respond_frame dispatch_latch
        attach_latch split: option.splits)

lemma finalizeRequest_latch_other:
  "isEnded (reqs s p) \<Longrightarrow> isEnded (reqs (finalizeRequest s now q ok) p)"
  "nextReq (finalizeRequest s now q ok) = nextReq s"
  by (simp_all add: finalizeRequest_reqs)
     (simp add: finalizeRequest_def Let_def setReq_def setConn_def setRoute_def pumpQueue_frame
        split: option.splits)

lemma creditFailure_frame:
  "reqs (creditFailure s now q) = reqs s" "nextReq (creditFailure s now q) = nextReq s"
  "conns (creditFailure s now q) = conns s" "routes (creditFailure s now q) = routes s"
  "tracker (creditFailure s now q) = tracker s"
  by (simp_all add: creditFailure_def setRoute_def split: option.splits)

lemma onProxyError_latch:
  "isEnded (reqs s p) \<Longrightarrow> isEnded (reqs (onProxyError s now err c) p)"
  "nextReq (onProxyError s now err c) = nextReq s"
  by (simp_all add: onProxyError_def Let_def respond_frame finalizeRequest_latch_other
        creditFailure_frame split: option.splits)

lemma step_ended: "ended s p \<Longrightarrow> ended (step s ev) p"
proof (cases ev)
  case (Request now u c hh ra)
  assume "ended s p"
  then show ?thesis using Request handleRequest_latch [of p s now u c hh ra]
    by (simp add: ended_def)
next
  case (Tick u)
  assume "ended s p"
  then show ?thesis using Tick
    by (simp add: ended_def forward_latch split: list.splits)
next
  case (Aborted now c)
  assume "ended s p"
  then show ?thesis using Aborted
    by (simp add: ended_def finalizeRequest_latch_other setConn_def split: option.splits)
next
  case (Finish now c status)
  assume "ended s p"
  then show ?thesis using Finish
    by (simp add: ended_def Let_def finalizeRequest_latch_other setConn_def split: option.splits)
next
  case (UpstreamError now err c)
  assume "ended s p"
  then show ?thesis using UpstreamError
    by (simp add: ended_def onProxyError_latch)
qed

lemma run_ended: "ended s p \<Longrightarrow> ended (run s evs) p"
  unfolding run_def by (induction evs arbitrary: s) (simp_all add: step_ended)

subsection \<open>The states of the queue-then-drain scenario\<close>

lemmas world_defs = addRoute_def newRoute_def startHealthCheck_def setRoute_def setConn_def
  setReq_def newProxyManager_def Route_stop_def Router_stop_def getRoute_def removeRoute_def

lemmas request_defs = run_def handleRequest_def attachProxyRequest_def dispatch_def forward_def
  finalizeRequest_def pumpQueue_eq respond_def writeHead_def end_response_def freshConn_def
  truthy_def canHandleRequest_def canQueueRequest_def enqueue_def
  Route_getNextBackend_def RoundRobin_getNextBackend_def getAliveBackends_def
  trackRequestStart_def trackRequestEnd_def trackError_def getStats_def

lemma saturated_route:
  "getRoute saturated ''t1.local'' = Some 0"
  "activeRequests (routeHeap saturated 0) = 1"
  "queue (routeHeap saturated 0) = [1, 2]"
  "config (routeHeap saturated 0) = drainConfig"
  by (simp_all add: saturated_def world_defs request_defs drainConfig_def Let_def)

lemma saturated_first:
  "nextReq saturated = 3"
  "reqs saturated 0 = \<lparr>conn = 0, startTime = 1000, meta_vHost = ''t1.local'',
                        clientIp = Some ''10.0.0.1'', targetId = Some ''b1'', isEnded = False\<rparr>"
  "proxyRequest (conns saturated 0) = Some 0"
  "headersSent (res (conns saturated 0)) = False"
  "tracker saturated ''t1.local''
     = Some \<lparr>requestsTotal = 1, requestsActive = 1, errorsTotal = 0, avgLatencyMs = 0\<rparr>"
  by (simp_all add: saturated_def world_defs request_defs drainConfig_def Let_def)

text \<open>
  Claim C4. Finalizing the same request twice leaves the manager as finalizing it once,
  whatever the two success flags and clock readings, and also when other events run
  between the two calls (for a request that has been created). When the request was not
  yet ended and its route is registered, the two calls together lower \<open>activeRequests\<close>
  once, to \<open>max(0, activeRequests - 1)\<close>, and apply \<open>onEnd\<close> to the tracker once, with the
  first call's success flag.
\<close>

theorem finalizeRequest_idempotent:
  "finalizeRequest (finalizeRequest s now p ok) now' p ok' = finalizeRequest s now p ok
   \<and> (p < nextReq s \<longrightarrow>
        finalizeRequest (run (finalizeRequest s now p ok) evs) now' p ok'
          = run (finalizeRequest s now p ok) evs)
   \<and> (\<not> isEnded (reqs s p) \<and> getRoute s (meta_vHost (reqs s p)) = Some a \<longrightarrow>
        activeRequests (routeHeap (finalizeRequest (finalizeRequest s now p ok) now' p ok') a)
          = max 0 (activeRequests (routeHeap s a) - 1)
        \<and> tracker (finalizeRequest (finalizeRequest s now p ok) now' p ok')
          = trackRequestEnd (tracker s) (reqs s p) ok now)"
proof -
  have twice: "finalizeRequest (finalizeRequest s now p ok) now' p ok' = finalizeRequest s now p ok"
    by (rule finalizeRequest_ended) (rule finalizeRequest_latch)
  have later: "finalizeRequest (run (finalizeRequest s now p ok) evs) now' p ok'
                 = run (finalizeRequest s now p ok) evs" if "p < nextReq s"
  proof -
    have "ended (finalizeRequest s now p ok) p"
      using that by (simp add: ended_def finalizeRequest_latch finalizeRequest_latch_other)
    then have "ended (run (finalizeRequest s now p ok) evs) p" by (rule run_ended)
    then show ?thesis by (simp add: ended_def finalizeRequest_ended)
  qed
  show ?thesis
    by (simp add: twice later finalizeRequest_active)
qed

theorem finalizeRequest_idempotent_witness:
  "0 < nextReq saturated
   \<and> \<not> isEnded (reqs saturated 0)
   \<and> getRoute saturated (meta_vHost (reqs saturated 0)) = Some 0
   \<and> activeRequests (routeHeap saturated 0) = 1
   \<and> finalizeRequest (run (finalizeRequest saturated 1500 0 True) [Tick 0, Tick 0]) 1600 0 False
        = run (finalizeRequest saturated 1500 0 True) [Tick 0, Tick 0]
   \<and> activeRequests
        (routeHeap (finalizeRequest (finalizeRequest saturated 1500 0 True) 1600 0 False) 0) = 0
   \<and> tracker (finalizeRequest (finalizeRequest saturated 1500 0 True) 1600 0 False) ''t1.local''
        = Some \<lparr>requestsTotal = 1, requestsActive = 0, errorsTotal = 0, avgLatencyMs = 50\<rparr>"
  using finalizeRequest_idempotent [of saturated 1500 0 True 1600 False "[Tick 0, Tick 0]" 0]
  by (elim conjE)
     (simp add: saturated_route saturated_first trackRequestEnd_def getStats_def Let_def
        double_zero double_mul_values roundDouble_values)

section \<open>Load shedding\<close>

text \<open>
  Claim C7. When the route can neither handle nor queue, \<open>dispatch\<close> answers the request
  with status 503, the single header \<open>Retry-After: 10\<close> and the body \<open>Server Busy\<close>, and
  records one tracker error for the route's host (code \<open>QUEUE_FULL\<close>): \<open>errorsTotal\<close> goes
  up by one, \<open>requestsTotal\<close> and \<open>requestsActive\<close> stay. No route object changes
  (so \<open>activeRequests\<close> and the queue stay), no \<open>ProxyRequest\<close> changes (the request is not
  finalized), and nothing is scheduled.
\<close>

theorem dispatch_sheds_when_full:
  assumes "\<not> canHandleRequest (routeHeap s route)"
      and "\<not> canQueueRequest (routeHeap s route)"
  shows "res (conns (dispatch s u route p) (conn (reqs s p)))
           = \<lparr>statusCode = 503, headersSent = True, resHeaders = [(''Retry-After'', ''10'')],
              resBody = Some (Text ''Server Busy'')\<rparr>
         \<and> tracker (dispatch s u route p)
           = trackError (tracker s) (vHost (config (routeHeap s route))) ''QUEUE_FULL''
         \<and> errorsTotal (getStats (tracker (dispatch s u route p)) (vHost (config (routeHeap s route))))
           = errorsTotal (getStats (tracker s) (vHost (config (routeHeap s route)))) + 1
         \<and> requestsTotal (getStats (tracker (dispatch s u route p)) (vHost (config (routeHeap s route))))
           = requestsTotal (getStats (tracker s) (vHost (config (routeHeap s route))))
         \<and> requestsActive (getStats (tracker (dispatch s u route p)) (vHost (config (routeHeap s route))))
           = requestsActive (getStats (tracker s) (vHost (config (routeHeap s route))))
         \<and> routeHeap (dispatch s u route p) = routeHeap s
         \<and> reqs (dispatch s u route p) = reqs s
         \<and> ticks (dispatch s u route p) = ticks s
         \<and> routes (dispatch s u route p) = routes s"
  using assms
  by (simp add: dispatch_def Let_def respond_def setConn_def writeHead_def end_response_def
        trackError_def getStats_def)

lemma fourthArrives_facts:
  "routeHeap fourthArrives = routeHeap saturated"
  "tracker fourthArrives = tracker saturated"
  "conn (reqs fourthArrives 3) = 3"
  "isEnded (reqs fourthArrives 3) = False"
  by (simp_all add: fourthArrives_def attachProxyRequest_def Let_def setReq_def setConn_def
        saturated_first)

theorem dispatch_sheds_when_full_witness:
  "\<not> canHandleRequest (routeHeap fourthArrives 0)
   \<and> \<not> canQueueRequest (routeHeap fourthArrives 0)
   \<and> res (conns (dispatch fourthArrives 0 0 3) 3)
       = \<lparr>statusCode = 503, headersSent = True, resHeaders = [(''Retry-After'', ''10'')],
          resBody = Some (Text ''Server Busy'')\<rparr>
   \<and> tracker (dispatch fourthArrives 0 0 3) ''t1.local''
       = Some \<lparr>requestsTotal = 1, requestsActive = 1, errorsTotal = 1, avgLatencyMs = 0\<rparr>
   \<and> activeRequests (routeHeap (dispatch fourthArrives 0 0 3) 0) = 1
   \<and> queue (routeHeap (dispatch fourthArrives 0 0 3) 0) = [1, 2]
   \<and> \<not> isEnded (reqs (dispatch fourthArrives 0 0 3) 3)"
proof -
  have full: "\<not> canHandleRequest (routeHeap fourthArrives 0)"
             "\<not> canQueueRequest (routeHeap fourthArrives 0)"
    by (simp_all add: fourthArrives_facts saturated_route canHandleRequest_def
          canQueueRequest_def drainConfig_def)
  show ?thesis
    using dispatch_sheds_when_full [OF full, of 0 3] full
    by (elim conjE)
       (simp add: fourthArrives_facts saturated_route saturated_first drainConfig_def
          trackError_def getStats_def)
qed

section \<open>Upstream errors\<close>

lemma str_includes_sublist: "str_includes hay needle = sublist needle hay"
  by (induction hay) (simp_all add: sublist_Cons_right)

lemma str_includes_iff:
  "str_includes hay needle = (\<exists>pre post. hay = pre @ needle @ post)"
  by (simp add: str_includes_sublist sublist_def)

lemma markBackendFailure_active:
  "activeRequests (markBackendFailure r now t) = activeRequests r"
  by (simp add: markBackendFailure_def)

lemma creditFailure_active:
  "activeRequests (routeHeap (creditFailure s now p) a) = activeRequests (routeHeap s a)"
  by (simp add: creditFailure_def setRoute_def markBackendFailure_active split: option.splits)

lemma creditFailure_credits:
  assumes "getRoute s (meta_vHost (reqs s p)) = Some a"
      and "targetId (reqs s p) = Some t" and "t \<noteq> []"
      and "find (\<lambda>x. backend_id x = t) (backends (config (routeHeap s a))) = Some b"
  shows "find (\<lambda>x. backend_id x = t) (backends (config (routeHeap (creditFailure s now p) a)))
           = Some (recordFailure now b)"
  using assms
  by (simp add: creditFailure_def setRoute_def markBackendFailure_def find_failFirst)

lemma getRoute_creditFailure: "getRoute (creditFailure s now p) v = getRoute s v"
  by (simp add: getRoute_def creditFailure_frame)

text \<open>
  Claim C8. An upstream error arrives for a connection that carries a \<open>ProxyRequest\<close>
  and whose response headers are not yet sent. The error is of the timeout class exactly
  when its code is \<open>ECONNRESET\<close> or \<open>ETIMEDOUT\<close> or its message contains \<open>timeout\<close>.
  The client gets status 504 and code \<open>UPSTREAM_TIMEOUT\<close> for the timeout class, status
  502 and code \<open>UPSTREAM_ERROR\<close> otherwise, with a JSON body of the members \<open>error\<close>,
  \<open>code\<close> and \<open>message\<close>. The request is finalized with \<open>success = false\<close>: its latch is
  set, and if it was not ended before and its route is registered, \<open>activeRequests\<close> goes
  down once and the tracker gets \<open>onEnd\<close> with \<open>success = false\<close>. When the request has a
  (non-empty) \<open>targetId\<close> and the route registered for its host has a backend of that id,
  that backend is credited one failure by \<open>markFailure\<close>.
\<close>

theorem upstream_error_handling:
  assumes "proxyRequest (conns s c) = Some p"
      and "\<not> headersSent (res (conns s c))"
  shows "isTimeoutError err
           = (err_code err = Some ''ECONNRESET'' \<or> err_code err = Some ''ETIMEDOUT''
              \<or> (\<exists>pre post. err_message err = pre @ ''timeout'' @ post))
         \<and> res (conns (onProxyError s now err c) c)
           = \<lparr>statusCode = (if isTimeoutError err then 504 else 502), headersSent = True,
              resHeaders = [(''Content-Type'', ''application/json'')],
              resBody = Some (Json
                [(''error'', if isTimeoutError err then ''Gateway Timeout'' else ''Bad Gateway''),
                 (''code'', if isTimeoutError err then ''UPSTREAM_TIMEOUT'' else ''UPSTREAM_ERROR''),
                 (''message'', err_message err)])\<rparr>
         \<and> isEnded (reqs (onProxyError s now err c) p)
         \<and> (\<forall>a. \<not> isEnded (reqs s p) \<and> getRoute s (meta_vHost (reqs s p)) = Some a \<longrightarrow>
                activeRequests (routeHeap (onProxyError s now err c) a)
                  = max 0 (activeRequests (routeHeap s a) - 1)
                \<and> tracker (onProxyError s now err c)
                  = trackRequestEnd (tracker s) (reqs s p) False now)
         \<and> (\<forall>a t b. getRoute s (meta_vHost (reqs s p)) = Some a
                \<and> targetId (reqs s p) = Some t \<and> t \<noteq> []
                \<and> find (\<lambda>x. backend_id x = t) (backends (config (routeHeap s a))) = Some b \<longrightarrow>
                find (\<lambda>x. backend_id x = t)
                  (backends (config (routeHeap (onProxyError s now err c) a)))
                  = Some (recordFailure now b))"
proof -
  let ?s1 = "finalizeRequest (creditFailure s now p) now p False"
  have unsent: "\<not> headersSent (res (conns ?s1 c))"
    using assms(2) by (simp add: finalizeRequest_res creditFailure_frame)
  have s': "onProxyError s now err c
              = respond ?s1 c (if isTimeoutError err then 504 else 502)
                  [(''Content-Type'', ''application/json'')]
                  (Json [(''error'', if isTimeoutError err then ''Gateway Timeout'' else ''Bad Gateway''),
                         (''code'', if isTimeoutError err then ''UPSTREAM_TIMEOUT'' else ''UPSTREAM_ERROR''),
                         (''message'', err_message err)])"
    using assms(1) unsent by (simp add: onProxyError_def Let_def)
  have classify: "isTimeoutError err
           = (err_code err = Some ''ECONNRESET'' \<or> err_code err = Some ''ETIMEDOUT''
              \<or> (\<exists>pre post. err_message err = pre @ ''timeout'' @ post))"
    by (simp only: isTimeoutError_def str_includes_iff)
  have written: "res (conns (onProxyError s now err c) c)
           = \<lparr>statusCode = (if isTimeoutError err then 504 else 502), headersSent = True,
              resHeaders = [(''Content-Type'', ''application/json'')],
              resBody = Some (Json
                [(''error'', if isTimeoutError err then ''Gateway Timeout'' else ''Bad Gateway''),
                 (''code'', if isTimeoutError err then ''UPSTREAM_TIMEOUT'' else ''UPSTREAM_ERROR''),
                 (''message'', err_message err)])\<rparr>"
    unfolding s' by (simp add: respond_def setConn_def writeHead_def end_response_def)
  have latch: "isEnded (reqs (onProxyError s now err c) p)"
    unfolding s' by (simp add: respond_frame finalizeRequest_latch)
  have fin: "activeRequests (routeHeap (onProxyError s now err c) a)
                  = max 0 (activeRequests (routeHeap s a) - 1)
             \<and> tracker (onProxyError s now err c)
                  = trackRequestEnd (tracker s) (reqs s p) False now"
    if "\<not> isEnded (reqs s p)" "getRoute s (meta_vHost (reqs s p)) = Some a" for a
    unfolding s'
    using that finalizeRequest_active [of "creditFailure s now p" p a now False]
    by (simp add: respond_frame creditFailure_frame getRoute_creditFailure creditFailure_active)
  have credit: "find (\<lambda>x. backend_id x = t)
                  (backends (config (routeHeap (onProxyError s now err c) a)))
                  = Some (recordFailure now b)"
    if "getRoute s (meta_vHost (reqs s p)) = Some a" "targetId (reqs s p) = Some t" "t \<noteq> []"
       "find (\<lambda>x. backend_id x = t) (backends (config (routeHeap s a))) = Some b" for a t b
    unfolding s'
    using creditFailure_credits [OF that, of now]
    by (simp add: respond_frame finalizeRequest_config)
  show ?thesis
    using classify written latch fin credit by blast
qed

lemma error_classes: "\<not> isTimeoutError refused" "isTimeoutError hangUp"
  by (simp_all add: isTimeoutError_def refused_def hangUp_def)

lemma saturated_backend:
  "find (\<lambda>x. backend_id x = ''b1'') (backends drainConfig)
     = Some \<lparr>backend_id = ''b1'', hostname = ''127.0.0.1'', port = 9000, isDead = False,
             deadSince = None, failureCount = 0\<rparr>"
  by (simp add: drainConfig_def)

theorem upstream_error_handling_witness:
  "proxyRequest (conns saturated 0) = Some 0
   \<and> \<not> headersSent (res (conns saturated 0))
   \<and> res (conns (onProxyError saturated 1200 refused 0) 0)
       = \<lparr>statusCode = 502, headersSent = True,
          resHeaders = [(''Content-Type'', ''application/json'')],
          resBody = Some (Json [(''error'', ''Bad Gateway''), (''code'', ''UPSTREAM_ERROR''),
                                (''message'', err_message refused)])\<rparr>
   \<and> res (conns (onProxyError saturated 1200 hangUp 0) 0)
       = \<lparr>statusCode = 504, headersSent = True,
          resHeaders = [(''Content-Type'', ''application/json'')],
          resBody = Some (Json [(''error'', ''Gateway Timeout''), (''code'', ''UPSTREAM_TIMEOUT''),
                                (''message'', err_message hangUp)])\<rparr>
   \<and> isEnded (reqs (onProxyError saturated 1200 refused 0) 0)
   \<and> activeRequests (routeHeap (onProxyError saturated 1200 refused 0) 0) = 0
   \<and> tracker (onProxyError saturated 1200 refused 0) ''t1.local''
       = Some \<lparr>requestsTotal = 1, requestsActive = 0, errorsTotal = 1, avgLatencyMs = 20\<rparr>
   \<and> find (\<lambda>x. backend_id x = ''b1'')
         (backends (config (routeHeap (onProxyError saturated 1200 refused 0) 0)))
       = Some \<lparr>backend_id = ''b1'', hostname = ''127.0.0.1'', port = 9000, isDead = False,
               deadSince = None, failureCount = 1\<rparr>"
proof -
  have pre: "proxyRequest (conns saturated 0) = Some 0" "\<not> headersSent (res (conns saturated 0))"
    by (simp_all add: saturated_first)
  show ?thesis
    using upstream_error_handling [OF pre, of refused 1200, THEN conjunct2]
          upstream_error_handling [OF pre, of hangUp 1200, THEN conjunct2] pre
    by (elim conjE)
       (simp add: error_classes saturated_first saturated_route saturated_backend
          recordFailure_def trackRequestEnd_def getStats_def Let_def
          double_zero double_mul_values roundDouble_values)
qed

section \<open>Replacing a route\<close>

lemmas router_defs = addRoute_def newRoute_def startHealthCheck_def setRoute_def
  newProxyManager_def Route_stop_def Router_stop_def getRoute_def

text \<open>
  Claim C3, evaluated on the code. The route of Router.test.ts is added, then added
  again. The second \<open>addRoute\<close> maps the host to a new route built from the configuration,
  as the claim says. The route mapped before is not stopped: its timer handle is still
  set, its timer still runs in the event loop, and \<open>Router.stop\<close> no longer reaches it.
  \<open>removeRoute\<close>, by contrast, stops the route it drops.
\<close>

theorem addRoute_leaves_old_route_running:
  "getRoute (addRoute newProxyManager mockRouteConfig) ''example.com'' = Some 0
   \<and> healthCheckInterval (routeHeap (addRoute newProxyManager mockRouteConfig) 0) = Some 0
   \<and> getRoute replaced ''example.com'' = Some 1
   \<and> config (routeHeap replaced 1) = mockRouteConfig
   \<and> healthCheckInterval (routeHeap replaced 0) = Some 0
   \<and> 0 \<in> timers replaced
   \<and> 0 \<in> timers (Router_stop replaced)
   \<and> 0 \<notin> timers (snd (removeRoute (addRoute newProxyManager mockRouteConfig) ''example.com''))"
  by (simp add: replaced_def router_defs removeRoute_def mockRouteConfig_def Let_def)

section \<open>The bound on active requests\<close>

subsection \<open>What holds: the lower bound, and admission at capacity\<close>

lemma getNextBackend_active:
  "activeRequests (snd (Route_getNextBackend r u req)) = activeRequests r"
  by (simp add: Route_getNextBackend_def split: prod.splits)

lemma forward_active_mono:
  "activeRequests (routeHeap s a') \<le> activeRequests (routeHeap (forward s u a p) a')"
proof -
  obtain b r1 where pick: "Route_getNextBackend (routeHeap s a) u (Some (reqs s p)) = (b, r1)"
    by (cases "Route_getNextBackend (routeHeap s a) u (Some (reqs s p))")
  have "activeRequests r1 = activeRequests (routeHeap s a)"
    using getNextBackend_active [of "routeHeap s a" u "Some (reqs s p)"] pick by simp
  then show ?thesis
    by (cases b)
       (simp_all add: forward_def Let_def pick respond_def setRoute_def setReq_def setConn_def)
qed

lemma dispatch_active_mono:
  "activeRequests (routeHeap s a') \<le> activeRequests (routeHeap (dispatch s u a p) a')"
  by (simp add: dispatch_def Let_def forward_active_mono respond_frame setRoute_def enqueue_def)

lemma attach_routeHeap:
  "routeHeap (snd (attachProxyRequest s now c h ra)) = routeHeap s"
  by (simp add: attachProxyRequest_def Let_def setReq_def setConn_def)

lemma handleRequest_active_mono:
  "activeRequests (routeHeap s a') \<le> activeRequests (routeHeap (handleRequest s now u c hh ra) a')"
proof -
  have "activeRequests (routeHeap s a')
          \<le> activeRequests (routeHeap (dispatch (snd (attachProxyRequest s now c h ra)) u a p) a')"
    for h a p
    using dispatch_active_mono [of "snd (attachProxyRequest s now c h ra)" a' u a p]
    by (simp add: attach_routeHeap)
  then show ?thesis
    by (simp add: handleRequest_def Let_def case_prod_beta respond_frame split: option.splits)
qed

lemma finalizeRequest_nonneg:
  "activeRequestsNonNeg s \<Longrightarrow> activeRequestsNonNeg (finalizeRequest s now p ok)"
  by (simp add: activeRequestsNonNeg_def finalizeRequest_def Let_def pumpQueue_active
        setRoute_def setReq_def setConn_def split: option.splits)

lemma creditFailure_nonneg:
  "activeRequestsNonNeg s \<Longrightarrow> activeRequestsNonNeg (creditFailure s now p)"
  by (simp add: activeRequestsNonNeg_def creditFailure_active)

lemma step_nonneg: "activeRequestsNonNeg s \<Longrightarrow> activeRequestsNonNeg (step s ev)"
proof (cases ev)
  case (Request now u c hh ra)
  assume "activeRequestsNonNeg s"
  then show ?thesis
    using Request handleRequest_active_mono [of s _ now u c hh ra]
    by (auto simp: activeRequestsNonNeg_def intro: order_trans)
next
  case (Tick u)
  assume inv: "activeRequestsNonNeg s"
  show ?thesis
  proof (cases "ticks s")
    case Nil
    then show ?thesis using Tick inv by simp
  next
    case (Cons t rest)
    obtain a q where t: "t = (a, q)" by (cases t)
    have "0 \<le> activeRequests (routeHeap (forward (s\<lparr>ticks := rest\<rparr>) u a q) a')" for a'
      using forward_active_mono [of "s\<lparr>ticks := rest\<rparr>" a' u a q] inv
      by (auto simp: activeRequestsNonNeg_def intro: order_trans)
    then show ?thesis using Tick Cons t by (simp add: activeRequestsNonNeg_def)
  qed
next
  case (Aborted now c)
  assume inv: "activeRequestsNonNeg s"
  then have "activeRequestsNonNeg (setConn s c x)" for x
    by (simp add: activeRequestsNonNeg_def setConn_def)
  then show ?thesis using Aborted inv
    by (simp add: finalizeRequest_nonneg split: option.splits)
next
  case (Finish now c status)
  assume inv: "activeRequestsNonNeg s"
  then have "activeRequestsNonNeg (setConn s c x)" for x
    by (simp add: activeRequestsNonNeg_def setConn_def)
  then show ?thesis using Finish inv
    by (simp add: Let_def finalizeRequest_nonneg split: option.splits)
next
  case (UpstreamError now err c)
  assume inv: "activeRequestsNonNeg s"
  have "activeRequestsNonNeg (respond s' c' st hs b)" if "activeRequestsNonNeg s'" for s' c' st hs b
    using that by (simp add: activeRequestsNonNeg_def respond_frame)
  then show ?thesis using UpstreamError inv
    by (simp add: onProxyError_def Let_def finalizeRequest_nonneg creditFailure_nonneg
          split: option.splits)
qed

lemma run_nonneg: "activeRequestsNonNeg s \<Longrightarrow> activeRequestsNonNeg (run s evs)"
  unfolding run_def by (induction evs arbitrary: s) (simp_all add: step_nonneg)

lemma dispatch_at_capacity:
  assumes "\<not> canHandleRequest (routeHeap s a)"
  shows "activeRequests (routeHeap (dispatch s u a p) a') = activeRequests (routeHeap s a')"
    and "proxyWeb (conns (dispatch s u a p) c) = proxyWeb (conns s c)"
    and "ticks (dispatch s u a p) = ticks s"
  using assms
  by (simp_all add: dispatch_def Let_def respond_def setRoute_def setConn_def enqueue_def)

subsection \<open>What fails: the pump schedules the whole queue\<close>

text \<open>
  Claim C1, evaluated on the code. The route admits one active request and two queued
  ones. Three requests arrive: one is active, two are queued. The first response
  finishes: \<open>finalize\<close> lowers \<open>activeRequests\<close> to 0 and \<open>pumpQueue\<close>, whose loop
  condition reads a counter that only the deferred \<open>forward\<close> calls will raise, schedules
  both queued requests. After the two callbacks ran, \<open>activeRequests\<close> is 2 with a limit
  of 1.
\<close>

theorem pump_exceeds_active_limit:
  "reqActiveLength (config (routeHeap saturated 0)) = 1
   \<and> activeRequests (routeHeap saturated 0) = 1
   \<and> queue (routeHeap saturated 0) = [1, 2]
   \<and> ticks (run saturated [Finish 1500 0 200]) = [(0, 1), (0, 2)]
   \<and> activeRequests (routeHeap (run saturated [Finish 1500 0 200]) 0) = 0
   \<and> reqActiveLength (config (routeHeap drained 0)) = 1
   \<and> activeRequests (routeHeap drained 0) = 2"
  by (simp add: drained_def saturated_def world_defs request_defs drainConfig_def Let_def)

end
